theory Spec2Isabelle
  imports Main "HOL-Library.Char_ord" "HOL-Library.List_Lexorder"
begin

section \<open>Values, exceptions and the outside world\<close>

text \<open>
  Exceptions of the Python program are values. \<open>OtherException\<close> stands for every
  exception class the program does not tell apart (transport errors of \<^verbatim>\<open>requests\<close>,
  errors of \<^verbatim>\<open>msal\<close>, I/O errors).
\<close>

datatype exn = ValueError | TypeError | KeyError | JSONDecodeError | FileNotFoundError
  | OverflowError | OSError | OtherException

text \<open>A parsed JSON document, as \<^verbatim>\<open>json.loads\<close> and \<^verbatim>\<open>response.json()\<close> return it.
  A float is kept as the literal that was read.\<close>

datatype json = JNull | JBool bool | JInt int | JFloat string | JStr string
  | JArr "json list" | JObj "(string \<times> json) list"

type_synonym datetime = int \<comment> \<open>microseconds since the epoch\<close>

definition minutes :: "int \<Rightarrow> int" where
  "minutes m = m * 60000000"

record response =
  status_code :: int
  json_body :: "exn + json" \<comment> \<open>what \<^verbatim>\<open>response.json()\<close> gives: the parsed body, or the exception\<close>

record attachment =
  odata_type :: string
  name :: string
  contentType :: string
  contentBytes :: string
  isInline :: bool
  contentId :: string

record request =
  url :: string
  authorization :: string
  req_subject :: string
  req_content :: string
  toRecipients :: "string list"
  ccRecipients :: "string list option"
  req_attachments :: "attachment list option"
  saveToSentItems :: bool

text \<open>An HTML tree as BeautifulSoup holds it. A tag carries the identity of its Python
  object (the number), its name, its attributes in order, and its children. The value of
  an attribute is its text; the value of a multi-valued attribute such as \<^verbatim>\<open>class\<close>,
  which BeautifulSoup holds as the list of its words, is these words joined by single
  spaces, which is how it is written out.\<close>

datatype node = Tag nat string "(string \<times> string) list" "node list"
  | NavigableString string
  | Comment string
  | Doctype string

type_synonym soup = "node list"

text \<open>
  Everything the program asks of the outside world is a field of \<open>env\<close>: the \<open>n\<close>-th
  token exchange, the \<open>n\<close>-th HTTP POST, the \<open>n\<close>-th reading of the clock, the \<open>n\<close>-th
  random draw, the two HTML parsers, the JSON parser and the file system. A theorem
  that holds for every \<open>env\<close> holds for every behaviour of the outside world.
\<close>

record env =
  acquire_token :: "nat \<Rightarrow> exn + string option"
    \<comment> \<open>the exchange raises, or its result has an \<^verbatim>\<open>access_token\<close> or has none\<close>
  requests_post :: "nat \<Rightarrow> exn + response"
  clock :: "nat \<Rightarrow> datetime"
  random_draw :: "nat \<Rightarrow> nat"
  sleep_limit :: "nat \<Rightarrow> int"
    \<comment> \<open>the longest length, in seconds, that the \<open>n\<close>-th call of \<^verbatim>\<open>time.sleep\<close> is granted\<close>
  html5lib :: "string \<Rightarrow> exn + soup"
  html_parser :: "string \<Rightarrow> exn + soup"
  project_root :: string
  path_exists :: "string \<Rightarrow> bool"
  read_b64 :: "string \<Rightarrow> exn + string"
    \<comment> \<open>open, read and base64-encode the file at a path\<close>
  read_text :: "string \<Rightarrow> exn + string"
    \<comment> \<open>open a file as UTF-8 text and read it whole\<close>
  json_loads :: "string \<Rightarrow> exn + json"

datatype sleep_site = Backoff | InterRecipient

text \<open>
  The trace records, in order, the calls that reach the outside world:
  \<open>Authenticate\<close> for a token exchange, \<open>Post\<close> for an HTTP request, \<open>Sleep\<close> for
  \<^verbatim>\<open>time.sleep\<close> (tagged with the line that calls it: the backoff of line 390 or the
  wait between recipients of line 414), \<open>Processing\<close> for the log line that opens a
  recipient (line 373), and \<open>SendEmail\<close> for the return of a call of
  \<^verbatim>\<open>send_email\<close> from the batch loop (line 381), with its result.
\<close>

datatype event = Authenticate | Post request | Sleep sleep_site int
  | Processing nat nat string | SendEmail string bool

record world =
  auth_calls :: nat
  post_calls :: nat
  now_calls :: nat
  rand_calls :: nat
  sleep_calls :: nat
  trace :: "event list"

definition datetime_now :: "env \<Rightarrow> world \<Rightarrow> datetime \<times> world" where
  "datetime_now e w = (clock e (now_calls w), w\<lparr>now_calls := Suc (now_calls w)\<rparr>)"

text \<open>
  \<^verbatim>\<open>time.sleep\<close> on an integer number of seconds. The length is first converted to
  nanoseconds in a signed 64-bit integer: OverflowError when it does not fit, which is
  beyond \<open>sleep_max\<close> seconds. A negative length raises ValueError. The platform then
  sleeps until the monotonic clock has advanced by the length, and refuses with OSError a
  length that takes the clock beyond its range: the world says how long the call may
  sleep. A length of up to 300 seconds is always granted (a monotonic clock within 300
  seconds of its overflow, after 292 years of uptime, is not modelled).
\<close>

definition sleep_max :: int where
  "sleep_max = 9223372036"

definition time_sleep :: "env \<Rightarrow> sleep_site \<Rightarrow> int \<Rightarrow> world \<Rightarrow> exn + world" where
  "time_sleep e site secs w =
     (if secs < - sleep_max then Inl OverflowError
      else if sleep_max < secs then Inl OverflowError
      else if secs < 0 then Inl ValueError
      else if max 300 (sleep_limit e (sleep_calls w)) < secs then Inl OSError
      else Inr (w\<lparr>sleep_calls := Suc (sleep_calls w), trace := trace w @ [Sleep site secs]\<rparr>))"

text \<open>\<^verbatim>\<open>random.randint(a, b)\<close> raises ValueError on an empty range, and otherwise
  returns some integer of \<open>[a, b]\<close>: which one is the world's draw.\<close>

definition random_randint :: "env \<Rightarrow> int \<Rightarrow> int \<Rightarrow> world \<Rightarrow> (exn + int) \<times> world" where
  "random_randint e a b w =
     (if b < a then (Inl ValueError, w)
      else (Inr (a + int (random_draw e (rand_calls w) mod nat (b - a + 1))),
            w\<lparr>rand_calls := Suc (rand_calls w)\<rparr>))"

definition http_post :: "env \<Rightarrow> world \<Rightarrow> request \<Rightarrow> (exn + response) \<times> world" where
  "http_post e w req =
     (requests_post e (post_calls w),
      w\<lparr>post_calls := Suc (post_calls w), trace := trace w @ [Post req]\<rparr>)"

section \<open>OutlookEmailSender: the credential session\<close>

record sender =
  tenant_id :: string
  client_id :: string
  client_secret :: string
  shared_mailbox :: string
  access_token :: "string option"
  token_expires_at :: "datetime option"
  base_url :: string

definition authenticate :: "env \<Rightarrow> sender \<Rightarrow> world \<Rightarrow> bool \<times> sender \<times> world" where
  "authenticate e s w =
     (let w1 = w\<lparr>auth_calls := Suc (auth_calls w), trace := trace w @ [Authenticate]\<rparr> in
      case acquire_token e (auth_calls w) of
        Inl ex \<Rightarrow> (False, s, w1)
      | Inr None \<Rightarrow> (False, s, w1)
      | Inr (Some tok) \<Rightarrow>
          (let (t, w2) = datetime_now e w1 in
           (True, s\<lparr>access_token := Some tok, token_expires_at := Some (t + minutes 55)\<rparr>, w2)))"

text \<open>Python's \<^verbatim>\<open>not self.access_token\<close>: no token, or the empty string.\<close>

definition no_token :: "string option \<Rightarrow> bool" where
  "no_token t = (case t of None \<Rightarrow> True | Some v \<Rightarrow> v = [])"

definition is_token_expired :: "env \<Rightarrow> sender \<Rightarrow> world \<Rightarrow> bool \<times> world" where
  "is_token_expired e s w =
     (if no_token (access_token s) then (True, w)
      else case token_expires_at s of
        None \<Rightarrow> (True, w)
      | Some expires \<Rightarrow>
          (let (t, w1) = datetime_now e w in (expires - minutes 5 \<le> t, w1)))"

section \<open>OutlookEmailSender.send_email\<close>

text \<open>Python's \<^verbatim>\<open>key in x\<close> and \<^verbatim>\<open>x[key]\<close> for a string key, on a parsed JSON value.\<close>

fun is_substring :: "string \<Rightarrow> string \<Rightarrow> bool" where
  "is_substring p [] = (p = [])"
| "is_substring p (c # cs) = (if take (length p) (c # cs) = p then True else is_substring p cs)"

definition py_in :: "string \<Rightarrow> json \<Rightarrow> exn + bool" where
  "py_in k x =
     (case x of
        JObj kvs \<Rightarrow> Inr (List.member (map fst kvs) k)
      | JArr xs \<Rightarrow> Inr (List.member xs (JStr k))
      | JStr s \<Rightarrow> Inr (is_substring k s)
      | _ \<Rightarrow> Inl TypeError)"

definition py_getitem :: "json \<Rightarrow> string \<Rightarrow> exn + json" where
  "py_getitem x k =
     (case x of
        JObj kvs \<Rightarrow> (case map_of kvs k of None \<Rightarrow> Inl KeyError | Some v \<Rightarrow> Inr v)
      | _ \<Rightarrow> Inl TypeError)"

text \<open>Lines 168-169: \<^verbatim>\<open>"error" in error_response and
  error_response["error"]["code"] == "InvalidAuthenticationToken"\<close>, with everything
  that can raise there.\<close>

definition token_invalid :: "response \<Rightarrow> exn + bool" where
  "token_invalid r =
     (case json_body r of
        Inl ex \<Rightarrow> Inl ex
      | Inr error_response \<Rightarrow>
          (case py_in ''error'' error_response of
             Inl ex \<Rightarrow> Inl ex
           | Inr False \<Rightarrow> Inr False
           | Inr True \<Rightarrow>
               (case py_getitem error_response ''error'' of
                  Inl ex \<Rightarrow> Inl ex
                | Inr err \<Rightarrow>
                    (case py_getitem err ''code'' of
                       Inl ex \<Rightarrow> Inl ex
                     | Inr code \<Rightarrow> Inr (code = JStr ''InvalidAuthenticationToken'')))))"

definition bearer :: "sender \<Rightarrow> string" where
  "bearer s = ''Bearer '' @ (case access_token s of None \<Rightarrow> ''None'' | Some t \<Rightarrow> t)"

text \<open>Lines 121-159 and 163: the headers, the message and the URL.\<close>

definition build_request ::
  "sender \<Rightarrow> string \<Rightarrow> string \<Rightarrow> string \<Rightarrow> attachment list option \<Rightarrow> string list option
     \<Rightarrow> request" where
  "build_request s to_address subject html_body attachments cc_addresses =
     \<lparr> url = base_url s @ ''/users/'' @ shared_mailbox s @ ''/sendMail'',
       authorization = bearer s,
       req_subject = subject,
       req_content = html_body,
       toRecipients = [to_address],
       ccRecipients = (case cc_addresses of None \<Rightarrow> None
                       | Some cc \<Rightarrow> if cc = [] then None else Some cc),
       req_attachments = (case attachments of None \<Rightarrow> None
                          | Some a \<Rightarrow> if a = [] then None else Some a),
       saveToSentItems = True \<rparr>"

text \<open>Lines 162-185: the body of the \<^verbatim>\<open>try\<close>. An exception is the value \<open>Inl\<close>.\<close>

definition send_email_try ::
  "env \<Rightarrow> sender \<Rightarrow> world \<Rightarrow> request \<Rightarrow> (exn + bool) \<times> sender \<times> world" where
  "send_email_try e s w req =
     (case http_post e w req of
        (Inl ex, w1) \<Rightarrow> (Inl ex, s, w1)
      | (Inr response, w1) \<Rightarrow>
          (if status_code response = 401 then
             (case token_invalid response of
                Inl ex \<Rightarrow> (Inl ex, s, w1)
              | Inr False \<Rightarrow> (Inr (status_code response = 202), s, w1)
              | Inr True \<Rightarrow>
                  (let (ok, s2, w2) = authenticate e s w1 in
                   if ok then
                     (case http_post e w2 (req\<lparr>authorization := bearer s2\<rparr>) of
                        (Inl ex, w3) \<Rightarrow> (Inl ex, s2, w3)
                      | (Inr response2, w3) \<Rightarrow> (Inr (status_code response2 = 202), s2, w3))
                   else (Inr False, s2, w2)))
           else (Inr (status_code response = 202), s, w1)))"

text \<open>Lines 115-119: authenticate when the token is missing or expired. The result
  tells whether a usable token is held.\<close>

definition ensure_token :: "env \<Rightarrow> sender \<Rightarrow> world \<Rightarrow> bool \<times> sender \<times> world" where
  "ensure_token e s w =
     (let (stale, w0) = (if no_token (access_token s) then (True, w)
                         else is_token_expired e s w) in
      if stale then authenticate e s w0 else (True, s, w0))"

text \<open>The whole call: the \<^verbatim>\<open>except Exception\<close> of line 187 turns every exception of
  the \<^verbatim>\<open>try\<close> into the result False.\<close>

definition send_email ::
  "env \<Rightarrow> sender \<Rightarrow> world \<Rightarrow> string \<Rightarrow> string \<Rightarrow> string \<Rightarrow> attachment list option
     \<Rightarrow> string list option \<Rightarrow> (exn + bool) \<times> sender \<times> world" where
  "send_email e s w to_address subject html_body attachments cc_addresses =
     (let (ok, s1, w1) = ensure_token e s w in
      if ok then
        (case send_email_try e s1 w1
                (build_request s1 to_address subject html_body attachments cc_addresses) of
           (Inl ex, s2, w2) \<Rightarrow> (Inr False, s2, w2)
         | (Inr b, s2, w2) \<Rightarrow> (Inr b, s2, w2))
      else (Inr False, s1, w1))"


section \<open>HTML trees: the operations of BeautifulSoup the program uses\<close>

text \<open>\<^verbatim>\<open>find_all\<close> returns the matching tag objects, here their identities, in
  document order. The filter sees the name and the attributes of a tag.\<close>

fun find_all :: "(string \<Rightarrow> (string \<times> string) list \<Rightarrow> bool) \<Rightarrow> node list \<Rightarrow> nat list" where
  "find_all f [] = []"
| "find_all f (Tag i n a cs # rest) =
     (if f n a then [i] else []) @ find_all f cs @ find_all f rest"
| "find_all f (NavigableString t # rest) = find_all f rest"
| "find_all f (Comment t # rest) = find_all f rest"
| "find_all f (Doctype t # rest) = find_all f rest"

text \<open>The identities of all tag objects of a tree. Distinct objects have distinct
  identities: a tree a parser returns satisfies \<open>distinct (tag_ids soup)\<close>.\<close>

definition tag_ids :: "node list \<Rightarrow> nat list" where
  "tag_ids soup = find_all (\<lambda>n a. True) soup"

text \<open>\<^verbatim>\<open>tag.decompose()\<close>: the tag object \<open>i\<close> and everything below it leave the tree.
  On an object that has left the tree already it changes nothing in the tree.\<close>

fun decompose :: "nat \<Rightarrow> node list \<Rightarrow> node list" where
  "decompose i [] = []"
| "decompose i (Tag j n a cs # rest) =
     (if j = i then decompose i rest else Tag j n a (decompose i cs) # decompose i rest)"
| "decompose i (NavigableString t # rest) = NavigableString t # decompose i rest"
| "decompose i (Comment t # rest) = Comment t # decompose i rest"
| "decompose i (Doctype t # rest) = Doctype t # decompose i rest"

text \<open>\<^verbatim>\<open>tag[key]\<close> on the tag object \<open>i\<close>: KeyError when the attribute is missing.\<close>

fun tag_attrs :: "nat \<Rightarrow> node list \<Rightarrow> (string \<times> string) list option" where
  "tag_attrs i [] = None"
| "tag_attrs i (Tag j n a cs # rest) =
     (if j = i then Some a
      else case tag_attrs i cs of Some b \<Rightarrow> Some b | None \<Rightarrow> tag_attrs i rest)"
| "tag_attrs i (NavigableString t # rest) = tag_attrs i rest"
| "tag_attrs i (Comment t # rest) = tag_attrs i rest"
| "tag_attrs i (Doctype t # rest) = tag_attrs i rest"

definition tag_getitem :: "node list \<Rightarrow> nat \<Rightarrow> string \<Rightarrow> exn + string" where
  "tag_getitem soup i k =
     (case tag_attrs i soup of
        None \<Rightarrow> Inl KeyError
      | Some a \<Rightarrow> (case map_of a k of None \<Rightarrow> Inl KeyError | Some v \<Rightarrow> Inr v))"

text \<open>\<^verbatim>\<open>tag[key] = value\<close>: a dict assignment, in place for a key that is there, at
  the end for a new one.\<close>

fun attr_update :: "string \<Rightarrow> string \<Rightarrow> (string \<times> string) list \<Rightarrow> (string \<times> string) list" where
  "attr_update k v [] = [(k, v)]"
| "attr_update k v ((k', v') # kvs) =
     (if k' = k then (k, v) # kvs else (k', v') # attr_update k v kvs)"

fun tag_setitem :: "nat \<Rightarrow> string \<Rightarrow> string \<Rightarrow> node list \<Rightarrow> node list" where
  "tag_setitem i k v [] = []"
| "tag_setitem i k v (Tag j n a cs # rest) =
     Tag j n (if j = i then attr_update k v a else a) (tag_setitem i k v cs)
       # tag_setitem i k v rest"
| "tag_setitem i k v (NavigableString t # rest) = NavigableString t # tag_setitem i k v rest"
| "tag_setitem i k v (Comment t # rest) = Comment t # tag_setitem i k v rest"
| "tag_setitem i k v (Doctype t # rest) = Doctype t # tag_setitem i k v rest"

text \<open>\<^verbatim>\<open>str(soup)\<close>: the serialisation of BeautifulSoup with its default (minimal)
  formatter. Text is escaped except inside script and style; the attributes of a tag are
  written sorted by name (the names of a tag are distinct), each value escaped and quoted;
  a childless void element closes itself.\<close>

fun escape_xml :: "string \<Rightarrow> string" where
  "escape_xml [] = []"
| "escape_xml (c # cs) =
     (if c = CHR ''&'' then ''&amp;'' else if c = CHR ''<'' then ''&lt;''
      else if c = CHR ''>'' then ''&gt;'' else [c]) @ escape_xml cs"

definition dquote :: char where
  "dquote = CHR 0x22"

definition squote :: char where
  "squote = CHR 0x27"

definition quoted_attribute_value :: "string \<Rightarrow> string" where
  "quoted_attribute_value v =
     (if List.member v dquote then
        (if List.member v squote
         then [dquote] @ concat (map (\<lambda>c. if c = dquote then ''&quot;'' else [c]) v) @ [dquote]
         else [squote] @ v @ [squote])
      else [dquote] @ v @ [dquote])"

definition attrs_str :: "(string \<times> string) list \<Rightarrow> string" where
  "attrs_str a =
     concat (map (\<lambda>(k, v). '' '' @ k @ ''='' @ quoted_attribute_value (escape_xml v))
               (sort_key fst a))"

definition empty_element_tags :: "string list" where
  "empty_element_tags =
     [''area'', ''base'', ''br'', ''col'', ''embed'', ''hr'', ''img'', ''input'', ''keygen'',
      ''link'', ''menuitem'', ''meta'', ''param'', ''source'', ''track'', ''wbr'',
      ''basefont'', ''bgsound'', ''command'', ''frame'', ''image'', ''isindex'', ''nextid'',
      ''spacer'']"

definition cdata_containing_tags :: "string list" where
  "cdata_containing_tags = [''script'', ''style'']"

fun nodes_str :: "string \<Rightarrow> node list \<Rightarrow> string" where
  "nodes_str parent [] = []"
| "nodes_str parent (Tag i n a cs # rest) =
     (''<'' @ n @ attrs_str a @
        (if cs = [] \<and> List.member empty_element_tags n then ''/>''
         else ''>'' @ nodes_str n cs @ ''</'' @ n @ ''>''))
     @ nodes_str parent rest"
| "nodes_str parent (NavigableString t # rest) =
     (if List.member cdata_containing_tags parent then t else escape_xml t)
     @ nodes_str parent rest"
| "nodes_str parent (Comment t # rest) = ''<!--'' @ t @ ''-->'' @ nodes_str parent rest"
| "nodes_str parent (Doctype t # rest) =
     ''<!DOCTYPE '' @ t @ ''>'' @ [CHR 0x0A] @ nodes_str parent rest"

definition soup_str :: "soup \<Rightarrow> string" where
  "soup_str soup = nodes_str ''[document]'' soup"

section \<open>OutlookEmailSender.sanitize_html\<close>

definition script_or_style :: "string \<Rightarrow> (string \<times> string) list \<Rightarrow> bool" where
  "script_or_style n a = List.member [''script'', ''style''] n"

text \<open>Lines 308-315, the body of the \<^verbatim>\<open>try\<close>.\<close>

definition sanitize_html_try :: "env \<Rightarrow> string \<Rightarrow> exn + string" where
  "sanitize_html_try e html_content =
     (case html5lib e html_content of
        Inl ex \<Rightarrow> Inl ex
      | Inr soup \<Rightarrow>
          Inr (soup_str (foldl (\<lambda>sp script. decompose script sp) soup
                           (find_all script_or_style soup))))"

definition sanitize_html :: "env \<Rightarrow> string \<Rightarrow> exn + string" where
  "sanitize_html e html_content =
     (case sanitize_html_try e html_content of
        Inl ex \<Rightarrow> Inr html_content
      | Inr cleaned \<Rightarrow> Inr cleaned)"


section \<open>OutlookEmailSender.extract_inline_images\<close>

definition startswith :: "string \<Rightarrow> string \<Rightarrow> bool" where
  "startswith s p = (take (length p) s = p)"

text \<open>
  \<^verbatim>\<open>re.match(r'data:(image/[^;]+);base64,(.*)', src)\<close>: the two groups, or no match.
  The first group runs to the first semicolon after \<^verbatim>\<open>data:image/\<close> and is not empty
  there; the second group is what follows \<^verbatim>\<open>;base64,\<close> up to the first line feed (the
  dot of a Python pattern matches no line feed).
\<close>

definition strip_prefix :: "string \<Rightarrow> string \<Rightarrow> string option" where
  "strip_prefix p s = (if startswith s p then Some (drop (length p) s) else None)"

definition match_data_uri :: "string \<Rightarrow> (string \<times> string) option" where
  "match_data_uri src =
     (case strip_prefix ''data:image/'' src of
        None \<Rightarrow> None
      | Some rest \<Rightarrow>
          (let subtype = takeWhile (\<lambda>c. c \<noteq> CHR '';'') rest;
               after = dropWhile (\<lambda>c. c \<noteq> CHR '';'') rest
           in if subtype = [] then None
              else case strip_prefix '';base64,'' after of
                None \<Rightarrow> None
              | Some payload \<Rightarrow>
                  Some (''image/'' @ subtype, takeWhile (\<lambda>c. c \<noteq> CHR 0x0A) payload)))"

text \<open>\<^verbatim>\<open>str(n)\<close> for a natural number.\<close>

fun str_nat :: "nat \<Rightarrow> string" where
  "str_nat n =
     (if n < 10 then [char_of (48 + n)] else str_nat (n div 10) @ [char_of (48 + n mod 10)])"

declare str_nat.simps [simp del]

definition new_cid :: "attachment list \<Rightarrow> string" where
  "new_cid attachments = ''image_'' @ str_nat (length attachments + 1) @ ''@example.com''"

text \<open>\<^verbatim>\<open>s.split(sep)\<close> for a one-character separator; the result is never empty.\<close>

fun py_split :: "char \<Rightarrow> string \<Rightarrow> string list" where
  "py_split sep [] = [[]]"
| "py_split sep (c # cs) =
     (if c = sep then [] # py_split sep cs
      else case py_split sep cs of [] \<Rightarrow> [[c]] | x # xs \<Rightarrow> (c # x) # xs)"

definition last_part :: "string \<Rightarrow> string" where
  "last_part src = (case rev (py_split CHR ''/'' src) of [] \<Rightarrow> [] | x # xs \<Rightarrow> x)"

text \<open>\<^verbatim>\<open>os.path.join\<close> and the extension of \<^verbatim>\<open>os.path.splitext\<close> on POSIX paths, and
  \<^verbatim>\<open>str.lower\<close> on ASCII letters.\<close>

definition path_join :: "string \<Rightarrow> string \<Rightarrow> string" where
  "path_join a b =
     (if startswith b ''/'' then b
      else if a = [] then b
      else if last a = CHR ''/'' then a @ b
      else a @ ''/'' @ b)"

definition splitext_ext :: "string \<Rightarrow> string" where
  "splitext_ext p =
     (let b = last_part p;
          e = takeWhile (\<lambda>c. c \<noteq> CHR ''.'') (rev b);
          stem = drop (length e + 1) (rev b)
      in if List.member b CHR ''.'' \<and> list_ex (\<lambda>c. c \<noteq> CHR ''.'') stem
         then ''.'' @ rev e else [])"

definition lower_char :: "char \<Rightarrow> char" where
  "lower_char c =
     (if 65 \<le> (of_char c :: nat) \<and> (of_char c :: nat) \<le> 90
      then char_of ((of_char c :: nat) + 32) else c)"

definition mime_of_ext :: "string \<Rightarrow> string" where
  "mime_of_ext ext =
     (let lext = map lower_char ext in
      if lext = ''.jpg'' then ''image/jpeg''
      else if lext = ''.jpeg'' then ''image/jpeg''
      else if lext = ''.gif'' then ''image/gif''
      else ''image/png'')"

text \<open>Lines 242-285, the body of the \<^verbatim>\<open>try\<close> of the relative-path branch, up to the
  point where the attachment is appended: the new attachment, if the file is found.
  Everything that can raise there comes before the append.\<close>

definition local_image_try ::
  "env \<Rightarrow> string \<Rightarrow> attachment list \<Rightarrow> exn + attachment option" where
  "local_image_try e src attachments =
     (let template_dir = path_join (project_root e) ''template'';
          images_dir = path_join template_dir ''images'';
          image_path0 = path_join images_dir src;
          image_path = (if path_exists e image_path0 then image_path0
                        else if List.member src CHR ''/'' then path_join template_dir src
                        else image_path0)
      in if path_exists e image_path then
           (case read_b64 e image_path of
              Inl ex \<Rightarrow> Inl ex
            | Inr base64_data \<Rightarrow>
                Inr (Some \<lparr> odata_type = ''#microsoft.graph.fileAttachment'',
                            name = last_part src,
                            contentType = mime_of_ext (splitext_ext src),
                            contentBytes = base64_data,
                            isInline = True,
                            contentId = new_cid attachments \<rparr>))
         else Inr None)"

text \<open>Lines 206-293: the body of the loop, for the tag object \<open>img_tag\<close>.\<close>

definition process_img ::
  "env \<Rightarrow> nat \<Rightarrow> soup \<times> attachment list \<Rightarrow> exn + soup \<times> attachment list" where
  "process_img e img_tag st =
     (case st of (soup, attachments) \<Rightarrow>
      (case tag_getitem soup img_tag ''src'' of
         Inl ex \<Rightarrow> Inl ex
       | Inr src \<Rightarrow>
           if startswith src ''data:'' then
             (case match_data_uri src of
                Some (mime_type, base64_data) \<Rightarrow>
                  Inr (tag_setitem img_tag ''src'' (''cid:'' @ new_cid attachments) soup,
                       attachments @
                         [\<lparr> odata_type = ''#microsoft.graph.fileAttachment'',
                            name = ''image_'' @ str_nat (length attachments + 1),
                            contentType = mime_type,
                            contentBytes = base64_data,
                            isInline = True,
                            contentId = new_cid attachments \<rparr>])
              | None \<Rightarrow> Inr (soup, attachments))
           else if startswith src ''file://'' then Inr (soup, attachments)
           else if startswith src ''/'' then Inr (soup, attachments)
           else if startswith src ''http'' then Inr (soup, attachments)
           else if startswith src ''cid:'' then Inr (soup, attachments)
           else
             (case local_image_try e src attachments of
                Inl ex \<Rightarrow> Inr (soup, attachments)
              | Inr None \<Rightarrow> Inr (soup, attachments)
              | Inr (Some attachment) \<Rightarrow>
                  Inr (tag_setitem img_tag ''src'' (''cid:'' @ contentId attachment) soup,
                       attachments @ [attachment]))))"

fun img_loop ::
  "env \<Rightarrow> nat list \<Rightarrow> soup \<times> attachment list \<Rightarrow> exn + soup \<times> attachment list" where
  "img_loop e [] st = Inr st"
| "img_loop e (img_tag # rest) st =
     (case process_img e img_tag st of
        Inl ex \<Rightarrow> Inl ex
      | Inr st' \<Rightarrow> img_loop e rest st')"

definition img_with_src :: "string \<Rightarrow> (string \<times> string) list \<Rightarrow> bool" where
  "img_with_src n a = (n = ''img'' \<and> (case map_of a ''src'' of None \<Rightarrow> False | Some v \<Rightarrow> True))"

definition extract_inline_images :: "env \<Rightarrow> string \<Rightarrow> exn + string \<times> attachment list" where
  "extract_inline_images e html_content =
     (case html_parser e html_content of
        Inl ex \<Rightarrow> Inl ex
      | Inr soup \<Rightarrow>
          (case img_loop e (find_all img_with_src soup) (soup, []) of
             Inl ex \<Rightarrow> Inl ex
           | Inr (soup', attachments) \<Rightarrow> Inr (soup_str soup', attachments)))"


section \<open>BatchEmailProcessor.send_batch\<close>

record detail =
  timestamp :: datetime
  recipient :: string
  status :: string

record results =
  total :: nat
  sent :: nat
  failed :: nat
  skipped :: nat
  details :: "detail list"

text \<open>What every call of \<^verbatim>\<open>send_email\<close> of one batch shares.\<close>

record mail =
  mail_subject :: string
  processed_html :: string
  mail_attachments :: "attachment list"
  mail_cc :: "string list option"

definition backoff_delay :: "nat \<Rightarrow> int" where
  "backoff_delay attempt = min (60 * 2 ^ attempt) 300"

text \<open>Lines 376-390: \<^verbatim>\<open>for attempt in range(max_retries + 1)\<close>, from the value
  \<open>attempt\<close> of the loop variable on. The result is the flag \<^verbatim>\<open>success\<close>.\<close>

function retry_loop ::
  "env \<Rightarrow> mail \<Rightarrow> string \<Rightarrow> int \<Rightarrow> nat \<Rightarrow> sender \<Rightarrow> world \<Rightarrow> (exn + bool) \<times> sender \<times> world" where
  "retry_loop e m rcpt max_retries attempt s w =
     (if int attempt < max_retries + 1 then
        (case send_email e s w rcpt (mail_subject m) (processed_html m)
                (Some (mail_attachments m)) (mail_cc m) of
           (Inl ex, s1, w1) \<Rightarrow> (Inl ex, s1, w1)
         | (Inr ok, s1, w1) \<Rightarrow>
             (let w2 = w1\<lparr>trace := trace w1 @ [SendEmail rcpt ok]\<rparr> in
              if ok then (Inr True, s1, w2)
              else if int attempt < max_retries then
                (case time_sleep e Backoff (backoff_delay attempt) w2 of
                   Inl ex \<Rightarrow> (Inl ex, s1, w2)
                 | Inr w3 \<Rightarrow> retry_loop e m rcpt max_retries (Suc attempt) s1 w3)
              else retry_loop e m rcpt max_retries (Suc attempt) s1 w2))
      else (Inr False, s, w))"
  by pat_completeness auto
termination
  by (relation "measure (\<lambda>(e, m, rcpt, max_retries, attempt, s, w).
                   nat (max_retries + 1) - attempt)") auto

declare retry_loop.simps [simp del]

text \<open>Lines 393-408: the record of one recipient.\<close>

definition record_result :: "results \<Rightarrow> datetime \<Rightarrow> string \<Rightarrow> bool \<Rightarrow> results" where
  "record_result res ts rcpt success =
     (if success
      then res\<lparr>sent := sent res + 1,
               details := details res @ [\<lparr>timestamp = ts, recipient = rcpt, status = ''success''\<rparr>]\<rparr>
      else res\<lparr>failed := failed res + 1,
               details := details res @ [\<lparr>timestamp = ts, recipient = rcpt, status = ''failed''\<rparr>]\<rparr>)"

text \<open>Lines 373-408: the attempts for one recipient, then its record. \<open>i\<close> is the
  index of the recipient and \<open>n\<close> is \<^verbatim>\<open>len(recipients)\<close>.\<close>

definition process_recipient ::
  "env \<Rightarrow> mail \<Rightarrow> int \<Rightarrow> nat \<Rightarrow> nat \<Rightarrow> string \<Rightarrow> sender \<Rightarrow> world \<Rightarrow> results
     \<Rightarrow> (exn + results) \<times> sender \<times> world" where
  "process_recipient e m max_retries n i rcpt s w res =
     (case retry_loop e m rcpt max_retries 0 s
             (w\<lparr>trace := trace w @ [Processing (i + 1) n rcpt]\<rparr>) of
        (Inl ex, s1, w1) \<Rightarrow> (Inl ex, s1, w1)
      | (Inr success, s1, w1) \<Rightarrow>
          (case datetime_now e w1 of
             (ts, w2) \<Rightarrow> (Inr (record_result res ts rcpt success), s1, w2)))"

text \<open>Lines 410-414: the wait before the next recipient, except after the last one.\<close>

definition wait_before_next :: "env \<Rightarrow> int \<Rightarrow> int \<Rightarrow> nat \<Rightarrow> nat \<Rightarrow> world \<Rightarrow> exn + world" where
  "wait_before_next e min_delay max_delay n i w =
     (if int i < int n - 1 then
        (case random_randint e min_delay max_delay w of
           (Inl ex, w1) \<Rightarrow> Inl ex
         | (Inr delay, w1) \<Rightarrow> time_sleep e InterRecipient delay w1)
      else Inr w)"

text \<open>Lines 372-414: \<^verbatim>\<open>for i, recipient in enumerate(recipients)\<close>, from index \<open>i\<close>
  on. An exception ends the loop and the summary is lost.\<close>

fun batch_loop ::
  "env \<Rightarrow> mail \<Rightarrow> int \<Rightarrow> int \<Rightarrow> int \<Rightarrow> nat \<Rightarrow> nat \<Rightarrow> string list \<Rightarrow> sender \<Rightarrow> world \<Rightarrow> results
     \<Rightarrow> (exn + results) \<times> sender \<times> world" where
  "batch_loop e m min_delay max_delay max_retries n i [] s w res = (Inr res, s, w)"
| "batch_loop e m min_delay max_delay max_retries n i (rcpt # rest) s w res =
     (case process_recipient e m max_retries n i rcpt s w res of
        (Inl ex, s1, w1) \<Rightarrow> (Inl ex, s1, w1)
      | (Inr res1, s1, w1) \<Rightarrow>
          (case wait_before_next e min_delay max_delay n i w1 of
             Inl ex \<Rightarrow> (Inl ex, s1, w1)
           | Inr w2 \<Rightarrow>
               batch_loop e m min_delay max_delay max_retries n (Suc i) rest s1 w2 res1))"

definition send_batch ::
  "env \<Rightarrow> sender \<Rightarrow> world \<Rightarrow> string list \<Rightarrow> string \<Rightarrow> string \<Rightarrow> int \<Rightarrow> int \<Rightarrow> int
     \<Rightarrow> string list option \<Rightarrow> (exn + results) \<times> sender \<times> world" where
  "send_batch e s w recipients subject html_template min_delay max_delay max_retries cc_addresses =
     (case sanitize_html e html_template of
        Inl ex \<Rightarrow> (Inl ex, s, w)
      | Inr clean_html \<Rightarrow>
          (case extract_inline_images e clean_html of
             Inl ex \<Rightarrow> (Inl ex, s, w)
           | Inr (html, attachments) \<Rightarrow>
               batch_loop e
                 \<lparr>mail_subject = subject, processed_html = html,
                  mail_attachments = attachments, mail_cc = cc_addresses\<rparr>
                 min_delay max_delay max_retries (length recipients) 0 recipients s w
                 \<lparr>total = length recipients, sent = 0, failed = 0, skipped = 0, details = []\<rparr>))"

section \<open>main.load_recipients\<close>

text \<open>
  \<^verbatim>\<open>str.strip()\<close>. A string is the UTF-8 text of a Python string, so a white-space
  character of Python is one of the byte sequences of \<open>white_space\<close>: the ASCII ones (tab,
  line feed, vertical tab, form feed, carriage return, the separators 0x1C-0x1F, space),
  and U+0085, U+00A0, U+1680, U+2000-U+200A, U+2028, U+2029, U+202F, U+205F, U+3000.
\<close>

definition white_space :: "string list" where
  "white_space =
     [[CHR 0x09], [CHR 0x0A], [CHR 0x0B], [CHR 0x0C], [CHR 0x0D],
      [CHR 0x1C], [CHR 0x1D], [CHR 0x1E], [CHR 0x1F], [CHR 0x20],
      [CHR 0xC2, CHR 0x85], [CHR 0xC2, CHR 0xA0], [CHR 0xE1, CHR 0x9A, CHR 0x80],
      [CHR 0xE2, CHR 0x80, CHR 0x80], [CHR 0xE2, CHR 0x80, CHR 0x81],
      [CHR 0xE2, CHR 0x80, CHR 0x82], [CHR 0xE2, CHR 0x80, CHR 0x83],
      [CHR 0xE2, CHR 0x80, CHR 0x84], [CHR 0xE2, CHR 0x80, CHR 0x85],
      [CHR 0xE2, CHR 0x80, CHR 0x86], [CHR 0xE2, CHR 0x80, CHR 0x87],
      [CHR 0xE2, CHR 0x80, CHR 0x88], [CHR 0xE2, CHR 0x80, CHR 0x89],
      [CHR 0xE2, CHR 0x80, CHR 0x8A], [CHR 0xE2, CHR 0x80, CHR 0xA8],
      [CHR 0xE2, CHR 0x80, CHR 0xA9], [CHR 0xE2, CHR 0x80, CHR 0xAF],
      [CHR 0xE2, CHR 0x81, CHR 0x9F], [CHR 0xE3, CHR 0x80, CHR 0x80]]"

text \<open>The length of the token that a string starts with, 0 when it starts with none;
  and the string without the tokens it starts with.\<close>

definition leading :: "string list \<Rightarrow> string \<Rightarrow> nat" where
  "leading toks s =
     (case find (\<lambda>t. t \<noteq> [] \<and> take (length t) s = t) toks of
        None \<Rightarrow> 0
      | Some t \<Rightarrow> length t)"

function lstrip_tokens :: "string list \<Rightarrow> string \<Rightarrow> string" where
  "lstrip_tokens toks s =
     (if leading toks s = 0 then s else lstrip_tokens toks (drop (leading toks s) s))"
  by pat_completeness auto
termination
proof (relation "measure (\<lambda>(toks, s). length s)")
  show "wf (measure (\<lambda>(toks, s). length s))" by simp
next
  fix toks :: "string list" and s :: string
  assume "leading toks s \<noteq> 0"
  then obtain t where "find (\<lambda>t. t \<noteq> [] \<and> take (length t) s = t) toks = Some t"
    and "leading toks s = length t"
    by (auto simp: leading_def split: option.splits)
  then have "t \<noteq> []" "take (length t) s = t"
    by (auto simp: find_Some_iff)
  then have "s \<noteq> []" "0 < length t" by auto
  with \<open>leading toks s = length t\<close>
  show "((toks, drop (leading toks s) s), (toks, s)) \<in> measure (\<lambda>(toks, s). length s)"
    by simp
qed

declare lstrip_tokens.simps [simp del]

definition strip :: "string \<Rightarrow> string" where
  "strip s = rev (lstrip_tokens (map rev white_space) (rev (lstrip_tokens white_space s)))"

text \<open>What a call of the function ends in: it returns a list, it returns \<^verbatim>\<open>None\<close> (the
  end of the body is reached with no \<^verbatim>\<open>return\<close>), or \<^verbatim>\<open>sys.exit(1)\<close> ends the process.\<close>

datatype loaded = ReturnsList "string list" | ReturnsNone | SystemExit int

text \<open>\<^verbatim>\<open>str(email)\<close> for an element of the array: a string is itself; the text of any
  other value is left to the parameter \<open>repr\<close>.\<close>

definition py_str :: "(json \<Rightarrow> string) \<Rightarrow> json \<Rightarrow> string" where
  "py_str repr v = (case v of JStr s \<Rightarrow> s | _ \<Rightarrow> repr v)"

definition load_recipients :: "env \<Rightarrow> (json \<Rightarrow> string) \<Rightarrow> string \<Rightarrow> loaded" where
  "load_recipients e repr file_path =
     (case read_text e file_path of
        Inl ex \<Rightarrow> SystemExit 1
      | Inr text \<Rightarrow>
          (let content = strip text in
           case json_loads e content of
             Inl JSONDecodeError \<Rightarrow>
               ReturnsList (map strip (filter (\<lambda>line. strip line \<noteq> [])
                                         (py_split (CHR 0x0A) content)))
           | Inl ex \<Rightarrow> SystemExit 1
           | Inr (JArr recipients) \<Rightarrow>
               ReturnsList (filter (\<lambda>x. x \<noteq> [])
                              (map (\<lambda>email. strip (py_str repr email)) recipients))
           | Inr other \<Rightarrow> ReturnsNone))"


section \<open>What the claims speak of\<close>

subsection \<open>Traces\<close>

text \<open>The events of the network (token exchanges and HTTP requests), and the rest of a
  trace: the schedule of the batch.\<close>

definition is_net :: "event \<Rightarrow> bool" where
  "is_net ev = (case ev of Authenticate \<Rightarrow> True | Post r \<Rightarrow> True | _ \<Rightarrow> False)"

definition schedule :: "event list \<Rightarrow> event list" where
  "schedule evs = filter (\<lambda>ev. \<not> is_net ev) evs"

text \<open>The schedule of \<open>k\<close> attempts for one recipient, numbered from \<open>a\<close>: every attempt
  but the last returns False and is followed by its backoff wait; the last one returns
  \<open>ok\<close>.\<close>

definition attempts_from :: "string \<Rightarrow> nat \<Rightarrow> nat \<Rightarrow> bool \<Rightarrow> event list" where
  "attempts_from rcpt a k ok =
     concat (map (\<lambda>i. [SendEmail rcpt False, Sleep Backoff (min (60 * 2 ^ i) 300)]) [a..<a + k - 1])
     @ [SendEmail rcpt ok]"

definition attempts :: "string \<Rightarrow> nat \<Rightarrow> bool \<Rightarrow> event list" where
  "attempts rcpt k ok =
     (if k = 0 then []
      else concat (map (\<lambda>i. [SendEmail rcpt False, Sleep Backoff (min (60 * 2 ^ i) 300)]) [0..<k - 1])
           @ [SendEmail rcpt ok])"



fun backoff_waits :: "event list \<Rightarrow> int list" where
  "backoff_waits [] = []"
| "backoff_waits (Sleep Backoff d # evs) = d # backoff_waits evs"
| "backoff_waits (ev # evs) = backoff_waits evs"



subsection \<open>Requests\<close>

text \<open>The last request issued between two states of the world was answered with
  HTTP 202.\<close>

definition last_request_accepted :: "env \<Rightarrow> world \<Rightarrow> world \<Rightarrow> bool" where
  "last_request_accepted e w w' =
     (post_calls w < post_calls w' \<and>
      (case requests_post e (post_calls w' - 1) of
         Inl ex \<Rightarrow> False
       | Inr r \<Rightarrow> status_code r = 202))"

text \<open>The invalid-authentication-token condition: a 401 whose body is an object with an
  \<^verbatim>\<open>error\<close> object whose \<^verbatim>\<open>code\<close> is \<^verbatim>\<open>InvalidAuthenticationToken\<close>.\<close>

definition invalid_token_401 :: "response \<Rightarrow> bool" where
  "invalid_token_401 r =
     (status_code r = 401 \<and>
      (case json_body r of
         Inr (JObj kvs) \<Rightarrow>
           (case map_of kvs ''error'' of
              Some (JObj err) \<Rightarrow> map_of err ''code'' = Some (JStr ''InvalidAuthenticationToken'')
            | _ \<Rightarrow> False)
       | _ \<Rightarrow> False))"

text \<open>What one call of \<^verbatim>\<open>send_email\<close> is to put on the network once a token is held,
  and what it is to return: one request; on the invalid-token condition one
  re-authentication and, if that succeeds, the same request once more under the new
  token.\<close>

definition exchange :: "env \<Rightarrow> world \<Rightarrow> request \<Rightarrow> event list" where
  "exchange e w req =
     (case requests_post e (post_calls w) of
        Inl ex \<Rightarrow> [Post req]
      | Inr resp \<Rightarrow>
          if invalid_token_401 resp then
            (case acquire_token e (auth_calls w) of
               Inr (Some tok) \<Rightarrow>
                 [Post req, Authenticate, Post (req\<lparr>authorization := ''Bearer '' @ tok\<rparr>)]
             | _ \<Rightarrow> [Post req, Authenticate])
          else [Post req])"

definition exchange_result :: "env \<Rightarrow> world \<Rightarrow> bool" where
  "exchange_result e w =
     (case requests_post e (post_calls w) of
        Inl ex \<Rightarrow> False
      | Inr resp \<Rightarrow>
          if invalid_token_401 resp then
            (case acquire_token e (auth_calls w) of
               Inr (Some tok) \<Rightarrow>
                 (case requests_post e (Suc (post_calls w)) of
                    Inl ex \<Rightarrow> False
                  | Inr resp2 \<Rightarrow> status_code resp2 = 202)
             | _ \<Rightarrow> False)
          else status_code resp = 202)"

subsection \<open>HTML trees\<close>

text \<open>The tag objects of a tree in document order: identity, name, attributes.\<close>

fun tags :: "node list \<Rightarrow> (nat \<times> string \<times> (string \<times> string) list) list" where
  "tags [] = []"
| "tags (Tag i n a cs # rest) = (i, n, a) # tags cs @ tags rest"
| "tags (NavigableString t # rest) = tags rest"
| "tags (Comment t # rest) = tags rest"
| "tags (Doctype t # rest) = tags rest"



text \<open>
  The element names of a piece of markup, read off its text: after every \<^verbatim>\<open><\<close> the run of
  characters up to the first white space, \<^verbatim>\<open>/\<close> or \<^verbatim>\<open>>\<close>. An empty run (an end tag) and
  a run that begins with \<^verbatim>\<open>!\<close> or \<^verbatim>\<open>?\<close> (a comment, a doctype, a processing instruction)
  name no element.
\<close>

definition delim :: "char \<Rightarrow> bool" where
  "delim c = List.member [CHR 0x20, CHR 0x09, CHR 0x0A, CHR 0x0C, CHR 0x0D, CHR ''/'', CHR ''>''] c"


definition is_start :: "string \<Rightarrow> bool" where
  "is_start n = (case n of [] \<Rightarrow> False | c # cs \<Rightarrow> c \<noteq> CHR ''!'' \<and> c \<noteq> CHR ''?'')"


text \<open>
  A tree is plain when this reading of its markup cannot go astray: every tag name is a
  name (not empty, no \<^verbatim>\<open><\<close>, no white space, \<^verbatim>\<open>/\<close> or \<^verbatim>\<open>>\<close>, no \<^verbatim>\<open>!\<close> or \<^verbatim>\<open>?\<close> in
  front), and no attribute name, comment or doctype holds a \<^verbatim>\<open><\<close>. Texts and attribute
  values are free.
\<close>

definition plain_name :: "string \<Rightarrow> bool" where
  "plain_name n = (is_start n \<and> \<not> List.member n CHR ''<'' \<and> \<not> list_ex delim n)"

fun plain :: "node list \<Rightarrow> bool" where
  "plain [] = True"
| "plain (Tag i n a cs # rest) =
     (plain_name n \<and> list_all (\<lambda>(k, v). \<not> List.member k CHR ''<'') a \<and> plain cs \<and> plain rest)"
| "plain (NavigableString t # rest) = plain rest"
| "plain (Comment t # rest) = (\<not> List.member t CHR ''<'' \<and> plain rest)"
| "plain (Doctype t # rest) = (\<not> List.member t CHR ''<'' \<and> plain rest)"

definition has_src :: "soup \<Rightarrow> nat \<Rightarrow> bool" where
  "has_src soup j = (case tag_getitem soup j ''src'' of Inl ex \<Rightarrow> False | Inr v \<Rightarrow> True)"

text \<open>The number a decimal numeral stands for, and what a decimal numeral is: digits
  only, at least one, and no zero in front of another digit.\<close>

definition nat_of_decimal :: "string \<Rightarrow> nat" where
  "nat_of_decimal s = foldl (\<lambda>a c. 10 * a + (of_char c - 48)) 0 s"

definition decimal :: "string \<Rightarrow> bool" where
  "decimal s = (s \<noteq> [] \<and> list_all (\<lambda>c. CHR ''0'' \<le> c \<and> c \<le> CHR ''9'') s
                \<and> (s = ''0'' \<or> hd s \<noteq> CHR ''0''))"

text \<open>The attachment descriptor of the \<open>n\<close>-th attachment, for an image of a data URI.\<close>

definition data_uri_attachment :: "nat \<Rightarrow> string \<Rightarrow> string \<Rightarrow> attachment" where
  "data_uri_attachment n mime payload =
     \<lparr> odata_type = ''#microsoft.graph.fileAttachment'',
       name = ''image_'' @ str_nat n,
       contentType = mime,
       contentBytes = payload,
       isInline = True,
       contentId = ''image_'' @ str_nat n @ ''@example.com'' \<rparr>"

section \<open>Example worlds\<close>

definition world0 :: world where
  "world0 = \<lparr>auth_calls = 0, post_calls = 0, now_calls = 0, rand_calls = 0, sleep_calls = 0,
               trace = []\<rparr>"

definition sender0 :: sender where
  "sender0 =
     \<lparr>tenant_id = ''tenant'', client_id = ''client'', client_secret = ''secret'',
      shared_mailbox = ''box@example.com'', access_token = None, token_expires_at = None,
      base_url = ''https://graph.microsoft.com/v1.0''\<rparr>"

definition status_response :: "int \<Rightarrow> response" where
  "status_response c = \<lparr>status_code = c, json_body = Inl JSONDecodeError\<rparr>"

definition invalid_token_response :: response where
  "invalid_token_response =
     \<lparr>status_code = 401,
      json_body = Inr (JObj [(''error'', JObj [(''code'', JStr ''InvalidAuthenticationToken''),
                                               (''message'', JStr ''Access token has expired.'')])])\<rparr>"

definition hello_tree :: soup where
  "hello_tree = [Tag 0 ''html'' [] [Tag 1 ''head'' [] [], Tag 2 ''body'' [] [NavigableString ''Hello'']]]"

text \<open>A world with given token exchanges and HTTP answers; the clock counts its
  readings; a sleep of up to 9000000000 seconds is granted; the template \<^verbatim>\<open>Hello\<close> parses as both parsers parse it; no file exists.\<close>

definition plain_env :: "(nat \<Rightarrow> exn + string option) \<Rightarrow> (nat \<Rightarrow> exn + response) \<Rightarrow> env" where
  "plain_env auths posts =
     \<lparr>acquire_token = auths, requests_post = posts, clock = (\<lambda>n. int n),
      random_draw = (\<lambda>n. n), sleep_limit = (\<lambda>n. 9000000000),
      html5lib = (\<lambda>h. if h = ''Hello'' then Inr hello_tree else Inl OtherException),
      html_parser = (\<lambda>h. if h = ''<html><head></head><body>Hello</body></html>''
                          then Inr hello_tree else Inl OtherException),
      project_root = ''/app'', path_exists = (\<lambda>p. False),
      read_b64 = (\<lambda>p. Inl FileNotFoundError),
      read_text = (\<lambda>p. Inl FileNotFoundError),
      json_loads = (\<lambda>s. Inl JSONDecodeError)\<rparr>"

text \<open>A world around given parsers and a given recipients file.\<close>

definition file_env ::
  "(string \<Rightarrow> exn + soup) \<Rightarrow> (string \<Rightarrow> exn + soup) \<Rightarrow> (exn + string) \<Rightarrow> (exn + json) \<Rightarrow> env" where
  "file_env p5 hp content parsed =
     \<lparr>acquire_token = (\<lambda>n. Inr None), requests_post = (\<lambda>n. Inl OtherException),
      clock = (\<lambda>n. int n), random_draw = (\<lambda>n. n), sleep_limit = (\<lambda>n. 9000000000),
      html5lib = p5, html_parser = hp,
      project_root = ''/app'', path_exists = (\<lambda>p. False),
      read_b64 = (\<lambda>p. Inl FileNotFoundError),
      read_text = (\<lambda>p. content),
      json_loads = (\<lambda>s. parsed)\<rparr>"









definition img_html :: "string \<Rightarrow> string" where
  "img_html src = ''<img src='' @ [dquote] @ src @ [dquote] @ ''>''"

definition img_env :: "string \<Rightarrow> env" where
  "img_env src =
     file_env (\<lambda>h. Inl OtherException)
       (\<lambda>h. if h = img_html src then Inr [Tag 0 ''img'' [(''src'', src)] []]
             else Inl OtherException)
       (Inl FileNotFoundError) (Inl JSONDecodeError)"

text \<open>Three image elements: one on the web, and two of data URIs.\<close>

definition three_imgs_html :: string where
  "three_imgs_html =
     img_html ''http://example.com/a.png'' @ img_html ''data:image/gif;base64,R0lG''
       @ img_html ''data:image/png;base64,QUJD''"

definition three_imgs_tree :: soup where
  "three_imgs_tree =
     [Tag 0 ''img'' [(''src'', ''http://example.com/a.png'')] [],
      Tag 1 ''img'' [(''src'', ''data:image/gif;base64,R0lG'')] [],
      Tag 2 ''img'' [(''src'', ''data:image/png;base64,QUJD'')] []]"

definition three_imgs_env :: env where
  "three_imgs_env =
     file_env (\<lambda>h. Inl OtherException)
       (\<lambda>h. if h = three_imgs_html then Inr three_imgs_tree else Inl OtherException)
       (Inl FileNotFoundError) (Inl JSONDecodeError)"

definition object_env :: env where
  "object_env =
     file_env (\<lambda>h. Inl OtherException) (\<lambda>h. Inl OtherException)
       (Inr (''{'' @ [dquote] @ ''to'' @ [dquote] @ '': '' @ [dquote] @ ''a@example.com'' @ [dquote] @ ''}''))
       (Inr (JObj [(''to'', JStr ''a@example.com'')]))"

section \<open>The network side of a call\<close>

lemma auth_posts: "authenticate e s w = (ok, s', w') \<Longrightarrow> post_calls w' = post_calls w"
  by (auto simp: authenticate_def datetime_now_def Let_def split: sum.splits option.splits)

lemma expired_posts: "is_token_expired e s w = (b, w') \<Longrightarrow> post_calls w' = post_calls w"
  by (auto simp: is_token_expired_def datetime_now_def Let_def split: if_splits option.splits)

lemma ensure_posts: "ensure_token e s w = (ok, s', w') \<Longrightarrow> post_calls w' = post_calls w"
  by (auto simp: ensure_token_def Let_def split: if_splits prod.splits dest!: auth_posts expired_posts)

lemma try_result:
  "send_email_try e s w req = (r, s', w') \<Longrightarrow>
     post_calls w < post_calls w' \<and> post_calls w' \<le> post_calls w + 2 \<and>
     (case r of Inr b \<Rightarrow> b = last_request_accepted e w w'
      | Inl ex \<Rightarrow> \<not> last_request_accepted e w w')"
  apply (auto simp: send_email_try_def http_post_def last_request_accepted_def Let_def
      split: sum.splits prod.splits if_splits bool.splits dest!: auth_posts)
  done

lemma auth_trace: "authenticate e s w = (ok, s', w') \<Longrightarrow> trace w' = trace w @ [Authenticate]"
  by (auto simp: authenticate_def datetime_now_def Let_def split: sum.splits option.splits)

lemma expired_trace: "is_token_expired e s w = (b, w') \<Longrightarrow> trace w' = trace w"
  by (auto simp: is_token_expired_def datetime_now_def Let_def split: if_splits option.splits)

lemma ensure_trace:
  "ensure_token e s w = (ok, s', w') \<Longrightarrow> \<exists>evs. trace w' = trace w @ evs \<and> list_all is_net evs"
  by (auto simp: ensure_token_def Let_def is_net_def split: if_splits prod.splits
      dest!: auth_trace expired_trace)

lemma try_trace:
  "send_email_try e s w req = (r, s', w') \<Longrightarrow> \<exists>evs. trace w' = trace w @ evs \<and> list_all is_net evs"
  by (auto simp: send_email_try_def http_post_def Let_def is_net_def
      split: sum.splits prod.splits if_splits bool.splits dest!: auth_trace)

lemma send_email_trace:
  assumes "send_email e s w to_address subject html_body attachments cc_addresses = (r, s', w')"
  shows "\<exists>b evs. r = Inr b \<and> trace w' = trace w @ evs \<and> list_all is_net evs"
proof -
  obtain ok s1 w1 where en: "ensure_token e s w = (ok, s1, w1)"
    by (metis prod_cases3)
  from ensure_trace[OF en] obtain evs1 where e1: "trace w1 = trace w @ evs1" "list_all is_net evs1"
    by blast
  show ?thesis
  proof (cases ok)
    case False
    with assms en e1 show ?thesis by (auto simp: send_email_def)
  next
    case True
    obtain r2 s2 w2 where tr: "send_email_try e s1 w1
        (build_request s1 to_address subject html_body attachments cc_addresses) = (r2, s2, w2)"
      by (metis prod_cases3)
    from try_trace[OF tr] obtain evs2 where e2: "trace w2 = trace w1 @ evs2" "list_all is_net evs2"
      by blast
    from assms en True tr have "w' = w2" "\<exists>b. r = Inr b"
      by (auto simp: send_email_def split: sum.splits)
    with e1 e2 show ?thesis by auto
  qed
qed

lemma schedule_net: "list_all is_net evs \<Longrightarrow> schedule evs = []"
  by (induction evs) (auto simp: schedule_def)

lemma schedule_append: "schedule (xs @ ys) = schedule xs @ schedule ys"
  by (simp add: schedule_def)

lemma backoff_nonneg: "0 \<le> backoff_delay a" "backoff_delay a \<le> 300"
  by (simp_all add: backoff_delay_def)


lemma time_sleep_backoff:
  "time_sleep e Backoff (backoff_delay a) w
     = Inr (w\<lparr>sleep_calls := Suc (sleep_calls w),
              trace := trace w @ [Sleep Backoff (backoff_delay a)]\<rparr>)"
  using backoff_nonneg[of a] by (simp add: time_sleep_def sleep_max_def)

lemma attempts_from_one: "attempts_from r a (Suc 0) ok = [SendEmail r ok]"
  by (simp add: attempts_from_def)

lemma attempts_from_step:
  "1 \<le> k \<Longrightarrow> attempts_from r a (Suc k) ok =
     SendEmail r False # Sleep Backoff (backoff_delay a) # attempts_from r (Suc a) k ok"
  by (simp add: attempts_from_def upt_rec[of a "a + k"] backoff_delay_def)

lemma retry_loop_schedule:
  "int a < mr + 1 \<Longrightarrow> retry_loop e m r mr a s w = (res, s', w') \<Longrightarrow>
     \<exists>k ok evs. res = Inr ok \<and> 1 \<le> k \<and> int (a + k) \<le> mr + 1 \<and>
        (ok \<or> int (a + k) = mr + 1) \<and>
        trace w' = trace w @ evs \<and> schedule evs = attempts_from r a k ok"
proof (induction "nat (mr + 1) - a" arbitrary: a s w)
  case 0
  then show ?case by simp
next
  case (Suc d)
  obtain r1 s1 w1 where se: "send_email e s w r (mail_subject m) (processed_html m)
                (Some (mail_attachments m)) (mail_cc m) = (r1, s1, w1)"
    by (metis prod_cases3)
  from send_email_trace[OF se] obtain b evs1 where
    b: "r1 = Inr b" "trace w1 = trace w @ evs1" "list_all is_net evs1" by blast
  let ?w2 = "w1\<lparr>trace := trace w1 @ [SendEmail r b]\<rparr>"
  have sch1: "schedule (evs1 @ [SendEmail r b]) = [SendEmail r b]"
    using b(3) by (simp add: schedule_append schedule_net) (simp add: schedule_def is_net_def)
  show ?case
  proof (cases b)
    case True
    with Suc.prems se b have "res = Inr True" "w' = ?w2"
      by (simp_all add: retry_loop.simps[of e m r mr a s w])
    with b True sch1 Suc.prems(1) show ?thesis
      apply (rule_tac x=1 in exI, rule_tac x=True in exI, rule_tac x="evs1 @ [SendEmail r True]" in exI)
      by (simp add: attempts_from_one)
  next
    case False
    show ?thesis
    proof (cases "int a < mr")
      case last: False
      with Suc.prems se b False have "retry_loop e m r mr (Suc a) s1 ?w2 = (res, s', w')"
        by (simp add: retry_loop.simps[of e m r mr a s w])
      moreover from last have "\<not> int (Suc a) < mr + 1" by simp
      ultimately have "res = Inr False" "w' = ?w2"
        by (simp_all add: retry_loop.simps[of e m r mr "Suc a"])
      with b False sch1 Suc.prems(1) last show ?thesis
        apply (rule_tac x=1 in exI, rule_tac x=False in exI, rule_tac x="evs1 @ [SendEmail r False]" in exI)
        by (simp add: attempts_from_one)
    next
      case more: True
      let ?w3 = "?w2\<lparr>sleep_calls := Suc (sleep_calls ?w2),
                      trace := trace ?w2 @ [Sleep Backoff (backoff_delay a)]\<rparr>"
      have sl: "time_sleep e Backoff (backoff_delay a) ?w2 = Inr ?w3"
        by (rule time_sleep_backoff)
      with Suc.prems se b False more have rec: "retry_loop e m r mr (Suc a) s1 ?w3 = (res, s', w')"
        by (simp add: retry_loop.simps[of e m r mr a s w])
      have "d = nat (mr + 1) - Suc a" using Suc.hyps(2) by simp
      moreover have "int (Suc a) < mr + 1" using more by simp
      ultimately obtain k ok evs where
        ih: "res = Inr ok" "1 \<le> k" "int (Suc a + k) \<le> mr + 1" "ok \<or> int (Suc a + k) = mr + 1"
            "trace w' = trace ?w3 @ evs" "schedule evs = attempts_from r (Suc a) k ok"
        using Suc.hyps(1)[OF _ _ rec] by blast
      have "schedule (evs1 @ [SendEmail r False, Sleep Backoff (backoff_delay a)] @ evs)
              = attempts_from r a (Suc k) ok"
        using ih(2,6) b(3)
        by (simp add: schedule_append schedule_net attempts_from_step)
           (simp add: schedule_def is_net_def)
      with ih b False show ?thesis
        apply (rule_tac x="Suc k" in exI, rule_tac x=ok in exI,
               rule_tac x="evs1 @ [SendEmail r False, Sleep Backoff (backoff_delay a)] @ evs" in exI)
        by simp
    qed
  qed
qed

lemma token_invalid_iff:
  "(status_code r = 401 \<and> token_invalid r = Inr True) = invalid_token_401 r"
  by (auto simp: token_invalid_def invalid_token_401_def py_in_def py_getitem_def
        dom_map_of_conv_image_fst[symmetric] domIff
      split: sum.splits json.splits option.splits bool.splits if_splits)

lemma auth_result:
  "authenticate e s w =
     (case acquire_token e (auth_calls w) of
        Inr (Some tok) \<Rightarrow>
          (True, s\<lparr>access_token := Some tok,
                   token_expires_at := Some (clock e (now_calls w) + minutes 55)\<rparr>,
           w\<lparr>auth_calls := Suc (auth_calls w), trace := trace w @ [Authenticate],
             now_calls := Suc (now_calls w)\<rparr>)
      | _ \<Rightarrow> (False, s, w\<lparr>auth_calls := Suc (auth_calls w), trace := trace w @ [Authenticate]\<rparr>))"
  by (simp add: authenticate_def datetime_now_def Let_def split: sum.splits option.splits)

lemma try_exchange:
  assumes "send_email_try e s w req = (r, s', w')"
  shows "trace w' = trace w @ exchange e w req"
    and "(case r of Inr b \<Rightarrow> b = exchange_result e w | Inl ex \<Rightarrow> \<not> exchange_result e w)"
proof -
  show "trace w' = trace w @ exchange e w req"
  proof (cases "requests_post e (post_calls w)")
    case (Inl ex)
    with assms show ?thesis
      by (auto simp: send_email_try_def http_post_def exchange_def)
  next
    case (Inr resp)
    show ?thesis
    proof (cases "invalid_token_401 resp")
      case False
      then have "\<not> (status_code resp = 401 \<and> token_invalid resp = Inr True)"
        by (simp add: token_invalid_iff)
      with assms Inr False show ?thesis
        by (auto simp: send_email_try_def http_post_def exchange_def split: sum.splits bool.splits if_splits)
    next
      case True
      then have "status_code resp = 401" "token_invalid resp = Inr True"
        using token_invalid_iff[of resp] by auto
      with assms Inr True show ?thesis
        by (auto simp: send_email_try_def http_post_def exchange_def auth_result bearer_def
            split: sum.splits option.splits)
    qed
  qed
  show "(case r of Inr b \<Rightarrow> b = exchange_result e w | Inl ex \<Rightarrow> \<not> exchange_result e w)"
  proof (cases "requests_post e (post_calls w)")
    case (Inl ex)
    with assms show ?thesis
      by (auto simp: send_email_try_def http_post_def exchange_result_def)
  next
    case (Inr resp)
    show ?thesis
    proof (cases "invalid_token_401 resp")
      case False
      then have "\<not> (status_code resp = 401 \<and> token_invalid resp = Inr True)"
        by (simp add: token_invalid_iff)
      with assms Inr False show ?thesis
        by (auto simp: send_email_try_def http_post_def exchange_result_def split: sum.splits bool.splits if_splits)
    next
      case True
      then have "status_code resp = 401" "token_invalid resp = Inr True"
        using token_invalid_iff[of resp] by auto
      with assms Inr True show ?thesis
        by (auto simp: send_email_try_def http_post_def exchange_result_def auth_result
            split: sum.splits option.splits)
    qed
  qed
qed

section \<open>The retry loop and the batch loop\<close>

lemma attempts_eq: "1 \<le> k \<Longrightarrow> attempts r k ok = attempts_from r 0 k ok"
  by (simp add: attempts_def attempts_from_def)

lemma retry_loop_none:
  "\<not> int a < mr + 1 \<Longrightarrow> retry_loop e m r mr a s w = (Inr False, s, w)"
  by (simp add: retry_loop.simps[of e m r mr a s w])

lemma process_recipient_schedule:
  assumes "process_recipient e m mr n i r s w res = (out, s', w')"
  shows "\<exists>k ok ts evs. out = Inr (record_result res ts r ok) \<and>
            trace w' = trace w @ evs \<and>
            schedule evs = Processing (i + 1) n r # attempts r k ok \<and>
            int k \<le> max 0 (mr + 1) \<and> (0 \<le> mr \<longrightarrow> 1 \<le> k) \<and> (ok \<or> int k = max 0 (mr + 1))"
proof -
  let ?w0 = "w\<lparr>trace := trace w @ [Processing (i + 1) n r]\<rparr>"
  obtain r1 s1 w1 where rl: "retry_loop e m r mr 0 s ?w0 = (r1, s1, w1)"
    by (metis prod_cases3)
  have "\<exists>k ok evs. r1 = Inr ok \<and> trace w1 = trace ?w0 @ evs \<and> schedule evs = attempts r k ok \<and>
            int k \<le> max 0 (mr + 1) \<and> (0 \<le> mr \<longrightarrow> 1 \<le> k) \<and> (ok \<or> int k = max 0 (mr + 1))"
  proof (cases "0 \<le> mr")
    case True
    then have "int 0 < mr + 1" by simp
    from retry_loop_schedule[OF this rl] obtain k ok evs where
      "r1 = Inr ok" "1 \<le> k" "int (0 + k) \<le> mr + 1" "ok \<or> int (0 + k) = mr + 1"
      "trace w1 = trace ?w0 @ evs" "schedule evs = attempts_from r 0 k ok" by blast
    with True show ?thesis
      apply (rule_tac x=k in exI, rule_tac x=ok in exI, rule_tac x=evs in exI)
      by (simp add: attempts_eq)
  next
    case False
    then have "\<not> int 0 < mr + 1" by simp
    from retry_loop_none[OF this] rl have "r1 = Inr False" "w1 = ?w0" by simp_all
    with False show ?thesis
      apply (rule_tac x=0 in exI, rule_tac x=False in exI, rule_tac x="[]" in exI)
      by (simp add: attempts_def schedule_def)
  qed
  then obtain k ok evs where
    h: "r1 = Inr ok" "trace w1 = trace ?w0 @ evs" "schedule evs = attempts r k ok"
       "int k \<le> max 0 (mr + 1)" "0 \<le> mr \<longrightarrow> 1 \<le> k" "ok \<or> int k = max 0 (mr + 1)" by blast
  from assms rl h(1) have out: "out = Inr (record_result res (clock e (now_calls w1)) r ok)"
      and w': "trace w' = trace w1"
    by (auto simp: process_recipient_def datetime_now_def)
  have "schedule (Processing (i + 1) n r # evs) = Processing (i + 1) n r # attempts r k ok"
    using h(3) by (simp add: schedule_def is_net_def)
  with out w' h show ?thesis
    apply (rule_tac x=k in exI, rule_tac x=ok in exI, rule_tac x="clock e (now_calls w1)" in exI,
           rule_tac x="Processing (i + 1) n r # evs" in exI)
    by simp
qed




lemma record_result_fields:
  "total (record_result res ts r ok) = total res"
  "skipped (record_result res ts r ok) = skipped res"
  "sent (record_result res ts r ok) + failed (record_result res ts r ok) = Suc (sent res + failed res)"
  "details (record_result res ts r ok) =
     details res @ [\<lparr>timestamp = ts, recipient = r, status = (if ok then ''success'' else ''failed'')\<rparr>]"
  "sent (record_result res ts r ok) = sent res + (if ok then 1 else 0)"
  "failed (record_result res ts r ok) = failed res + (if ok then 0 else 1)"
  by (simp_all add: record_result_def)






section \<open>Trees\<close>

lemma find_all_tags: "find_all f soup = map fst (filter (\<lambda>(i, n, a). f n a) (tags soup))"
  by (induction soup rule: tags.induct) auto

lemma tag_ids_tags: "tag_ids soup = map fst (tags soup)"
  by (simp add: tag_ids_def find_all_tags)










lemma tag_attrs_tags: "tag_attrs i soup = map_option snd (map_of (tags soup) i)"
  by (induction soup rule: tags.induct) (auto simp: map_add_def split: option.splits)

lemma map_of_attr_update: "map_of (attr_update k v a) k' = (if k' = k then Some v else map_of a k')"
  by (induction a) auto

lemma tag_attrs_setitem:
  "tag_attrs j (tag_setitem i k v soup) =
     (if j = i then map_option (attr_update k v) (tag_attrs i soup) else tag_attrs j soup)"
  by (induction soup rule: tags.induct) (auto split: option.splits)

lemma getitem_setitem:
  "tag_getitem (tag_setitem i ''src'' v soup) j ''src'' =
     (if j = i then (case tag_attrs i soup of None \<Rightarrow> Inl KeyError | Some a \<Rightarrow> Inr v)
      else tag_getitem soup j ''src'')"
  by (simp add: tag_getitem_def tag_attrs_setitem map_of_attr_update split: option.splits)

lemma has_src_setitem: "has_src soup j \<Longrightarrow> has_src (tag_setitem i ''src'' v soup) j"
  unfolding has_src_def getitem_setitem
  by (auto simp: tag_getitem_def split: option.splits sum.splits)

lemma process_img_cases:
  assumes "has_src soup i"
  shows "process_img e i (soup, atts) = Inr (soup, atts) \<or>
         (\<exists>c att. process_img e i (soup, atts) = Inr (tag_setitem i ''src'' c soup, atts @ [att]))"
proof -
  from assms obtain v where "tag_getitem soup i ''src'' = Inr v"
    by (auto simp: has_src_def split: sum.splits)
  then show ?thesis
    by (auto simp: process_img_def split: option.splits sum.splits)
qed

lemma img_loop_append:
  "img_loop e (xs @ ys) st =
     (case img_loop e xs st of Inl ex \<Rightarrow> Inl ex | Inr st' \<Rightarrow> img_loop e ys st')"
  by (induction xs arbitrary: st) (auto split: sum.splits)

lemma img_loop_frame:
  "(\<And>j. j \<in> set ids \<Longrightarrow> has_src soup j) \<Longrightarrow>
     \<exists>soup' extra. img_loop e ids (soup, atts) = Inr (soup', atts @ extra) \<and>
        (\<forall>j. j \<notin> set ids \<longrightarrow> tag_getitem soup' j ''src'' = tag_getitem soup j ''src'') \<and>
        (\<forall>j. has_src soup j \<longrightarrow> has_src soup' j)"
proof (induction ids arbitrary: soup atts)
  case Nil
  then show ?case by simp
next
  case (Cons i ids)
  have hi: "has_src soup i" using Cons.prems by simp
  from process_img_cases[OF hi, of e atts] obtain soup1 extra1 where
    p: "process_img e i (soup, atts) = Inr (soup1, atts @ extra1)"
    and s1: "soup1 = soup \<or> (\<exists>c. soup1 = tag_setitem i ''src'' c soup)"
    by (metis append_Nil2)
  have keep: "has_src soup1 j" if "has_src soup j" for j
    using s1 that by (auto simp: has_src_setitem)
  have other: "tag_getitem soup1 j ''src'' = tag_getitem soup j ''src''" if "j \<noteq> i" for j
    using s1 that by (auto simp: getitem_setitem)
  have "\<And>j. j \<in> set ids \<Longrightarrow> has_src soup1 j" using Cons.prems keep by simp
  from Cons.IH[OF this, of "atts @ extra1"] obtain soup' extra where
    ih: "img_loop e ids (soup1, atts @ extra1) = Inr (soup', (atts @ extra1) @ extra)"
        "\<forall>j. j \<notin> set ids \<longrightarrow> tag_getitem soup' j ''src'' = tag_getitem soup1 j ''src''"
        "\<forall>j. has_src soup1 j \<longrightarrow> has_src soup' j"
    by blast
  show ?case
    apply (rule_tac x=soup' in exI, rule_tac x="extra1 @ extra" in exI)
    using p ih keep other by simp
qed

lemma takeWhile_upto: "c \<notin> set xs \<Longrightarrow> takeWhile (\<lambda>x. x \<noteq> c) (xs @ c # ys) = xs"
  by (induction xs) auto

lemma dropWhile_upto: "c \<notin> set xs \<Longrightarrow> dropWhile (\<lambda>x. x \<noteq> c) (xs @ c # ys) = c # ys"
  by (induction xs) auto

lemma strip_prefix_append: "strip_prefix p (p @ r) = Some r"
  by (simp add: strip_prefix_def startswith_def)

lemma strip_prefix_Some: "strip_prefix p s = Some r \<Longrightarrow> s = p @ r"
  by (auto simp: strip_prefix_def startswith_def split: if_splits)
     (metis append_take_drop_id)

lemma match_data_uri_pattern:
  assumes "subtype \<noteq> []" "CHR '';'' \<notin> set subtype"
  shows "match_data_uri (''data:image/'' @ subtype @ '';base64,'' @ payload)
           = Some (''image/'' @ subtype, takeWhile (\<lambda>c. c \<noteq> CHR 0x0A) payload)"
proof -
  have s: "'';base64,'' @ payload = CHR '';'' # (''base64,'' @ payload)" by simp
  have t: "takeWhile (\<lambda>c. c \<noteq> CHR '';'') (subtype @ '';base64,'' @ payload) = subtype"
    unfolding s using assms(2) by (rule takeWhile_upto)
  have d: "dropWhile (\<lambda>c. c \<noteq> CHR '';'') (subtype @ '';base64,'' @ payload) = '';base64,'' @ payload"
    unfolding s using assms(2) by (rule dropWhile_upto)
  show ?thesis
    unfolding match_data_uri_def strip_prefix_append option.case Let_def t d
    using assms(1) by simp
qed

lemma match_data_uri_Some:
  assumes "match_data_uri src = Some (mime, data)"
  shows "\<exists>subtype payload. src = ''data:image/'' @ subtype @ '';base64,'' @ payload \<and>
           subtype \<noteq> [] \<and> CHR '';'' \<notin> set subtype"
proof -
  from assms obtain rest where r: "strip_prefix ''data:image/'' src = Some rest"
    by (auto simp: match_data_uri_def split: option.splits)
  let ?t = "takeWhile (\<lambda>c. c \<noteq> CHR '';'') rest"
  let ?d = "dropWhile (\<lambda>c. c \<noteq> CHR '';'') rest"
  from assms r obtain payload where a: "?t \<noteq> []" "strip_prefix '';base64,'' ?d = Some payload"
    by (auto simp: match_data_uri_def Let_def split: option.splits if_splits)
  have "rest = ?t @ ?d" by simp
  with strip_prefix_Some[OF r] strip_prefix_Some[OF a(2)]
  have "src = ''data:image/'' @ ?t @ '';base64,'' @ payload" by metis
  moreover have "CHR '';'' \<notin> set ?t" by (auto dest: set_takeWhileD)
  ultimately show ?thesis using a(1) by blast
qed

lemma find_all_distinct: "distinct (tag_ids soup) \<Longrightarrow> distinct (find_all f soup)"
  by (simp add: tag_ids_tags find_all_tags distinct_map_filter)

lemma find_all_has_src:
  assumes "distinct (tag_ids soup)" "j \<in> set (find_all img_with_src soup)"
  shows "has_src soup j"
proof -
  from assms(2) obtain n a where m: "(j, n, a) \<in> set (tags soup)" "img_with_src n a"
    by (auto simp: find_all_tags)
  from assms(1) have "distinct (map fst (tags soup))" by (simp add: tag_ids_tags)
  with m(1) have "map_of (tags soup) j = Some (n, a)" by simp
  then have "tag_attrs j soup = Some a" by (simp add: tag_attrs_tags)
  with m(2) show ?thesis
    by (auto simp: has_src_def tag_getitem_def img_with_src_def split: option.splits)
qed

lemma takeWhile_all: "c \<notin> set xs \<Longrightarrow> takeWhile (\<lambda>x. x \<noteq> c) xs = xs"
  by (induction xs) auto

lemma img_loop_split:
  assumes ids: "distinct (tag_ids soup)"
      and imgs: "find_all img_with_src soup = before @ i # after"
  shows "\<exists>soup1 atts1. img_loop e before (soup, []) = Inr (soup1, atts1) \<and>
           tag_getitem soup1 i ''src'' = tag_getitem soup i ''src'' \<and>
           (\<forall>j. has_src soup j \<longrightarrow> has_src soup1 j)"
    and "i \<notin> set before" "i \<notin> set after"
    and "\<And>j. j \<in> set (before @ i # after) \<Longrightarrow> has_src soup j"
proof -
  from find_all_distinct[OF ids, of img_with_src] imgs
  show d: "i \<notin> set before" "i \<notin> set after" by auto
  show h: "\<And>j. j \<in> set (before @ i # after) \<Longrightarrow> has_src soup j"
    using find_all_has_src[OF ids] imgs by simp
  then have "\<And>j. j \<in> set before \<Longrightarrow> has_src soup j" by simp
  from img_loop_frame[OF this, of before e "[]"] d(1)
  show "\<exists>soup1 atts1. img_loop e before (soup, []) = Inr (soup1, atts1) \<and>
           tag_getitem soup1 i ''src'' = tag_getitem soup i ''src'' \<and>
           (\<forall>j. has_src soup j \<longrightarrow> has_src soup1 j)"
    by auto
qed






















text \<open>\<^verbatim>\<open>str(n)\<close> is the decimal numeral of \<open>n\<close>.\<close>

lemma digit_char:
  "d < 10 \<Longrightarrow> CHR ''0'' \<le> char_of (48 + d) \<and> char_of (48 + d) \<le> CHR ''9''
     \<and> (of_char (char_of (48 + d) :: char) :: nat) = 48 + d
     \<and> ((char_of (48 + d) :: char) = CHR ''0'') = (d = 0)"
proof -
  assume d: "d < 10"
  then have o: "(of_char (char_of (48 + d) :: char) :: nat) = 48 + d" by simp
  have z: "(of_char CHR ''0'' :: nat) = 48" "(of_char CHR ''9'' :: nat) = 57" by simp_all
  have "((char_of (48 + d) :: char) = CHR ''0'') = ((of_char (char_of (48 + d) :: char) :: nat) = of_char CHR ''0'')"
    by (simp only: of_char_eq_iff)
  then show ?thesis using d o z by (simp add: less_eq_char_def)
qed

lemma str_nat_nonempty: "str_nat n \<noteq> []"
  by (subst str_nat.simps) simp

lemma hd_str_nat: "(hd (str_nat n) = CHR ''0'') = (n = 0)"
proof (induction n rule: str_nat.induct)
  case (1 n)
  show ?case
  proof (cases "n < 10")
    case True
    then show ?thesis using digit_char[of n] by (subst str_nat.simps) simp
  next
    case False
    then have "hd (str_nat n) = hd (str_nat (n div 10))"
      using str_nat_nonempty[of "n div 10"] by (subst str_nat.simps) simp
    with 1 False show ?thesis by simp
  qed
qed

lemma str_nat_decimal: "decimal (str_nat n) \<and> nat_of_decimal (str_nat n) = n"
proof (induction n rule: str_nat.induct)
  case (1 n)
  show ?case
  proof (cases "n < 10")
    case True
    then have s: "str_nat n = [char_of (48 + n)]" by (subst str_nat.simps) simp
    show ?thesis unfolding s using digit_char[OF True]
      by (auto simp: decimal_def nat_of_decimal_def)
  next
    case False
    then have s: "str_nat n = str_nat (n div 10) @ [char_of (48 + n mod 10)]"
      by (subst str_nat.simps) simp
    have m: "n mod 10 < 10" by simp
    from 1 False have ih: "decimal (str_nat (n div 10))" "nat_of_decimal (str_nat (n div 10)) = n div 10"
      by simp_all
    have h: "hd (str_nat n) \<noteq> CHR ''0''" using hd_str_nat[of n] False by simp
    have "nat_of_decimal (str_nat n) = 10 * (n div 10) + n mod 10"
      unfolding s using ih(2) digit_char[OF m] by (simp add: nat_of_decimal_def)
    moreover have "decimal (str_nat n)"
      using h ih(1) digit_char[OF m] str_nat_nonempty[of n] unfolding decimal_def s by simp
    ultimately show ?thesis by simp
  qed
qed


section \<open>Schedules\<close>

lemma backoff_waits_append: "backoff_waits (xs @ ys) = backoff_waits xs @ backoff_waits ys"
  by (induction xs rule: backoff_waits.induct) auto

lemma backoff_waits_schedule: "backoff_waits (schedule evs) = backoff_waits evs"
  by (induction evs rule: backoff_waits.induct) (auto simp: schedule_def is_net_def)

lemma backoff_waits_attempts:
  "backoff_waits (attempts r k ok) = map (\<lambda>j. min (60 * 2 ^ j) 300) [0..<k - 1]"
proof -
  have "backoff_waits (concat (map (\<lambda>i. [SendEmail r False, Sleep Backoff (min (60 * 2 ^ i) 300)]) js))
          = map (\<lambda>j. min (60 * 2 ^ j) 300) js" for js :: "nat list"
    by (induction js) auto
  then show ?thesis by (simp add: attempts_def backoff_waits_append)
qed





section \<open>Running the model on the example worlds\<close>

lemmas run_defs = send_batch_def sanitize_html_def sanitize_html_try_def extract_inline_images_def
  plain_env_def file_env_def hello_tree_def soup_str_def script_or_style_def img_with_src_def
  attrs_str_def quoted_attribute_value_def dquote_def squote_def
  empty_element_tags_def cdata_containing_tags_def process_recipient_def wait_before_next_def
  random_randint_def time_sleep_def sleep_max_def datetime_now_def record_result_def send_email_def
  ensure_token_def send_email_try_def http_post_def authenticate_def is_token_expired_def no_token_def
  build_request_def bearer_def token_invalid_def py_in_def py_getitem_def world0_def sender0_def
  status_response_def invalid_token_response_def Let_def backoff_delay_def minutes_def


lemmas img_defs = img_env_def img_html_def file_env_def extract_inline_images_def
  img_with_src_def process_img_def tag_getitem_def match_data_uri_def strip_prefix_def
  startswith_def new_cid_def soup_str_def attrs_str_def quoted_attribute_value_def
  dquote_def squote_def empty_element_tags_def data_uri_attachment_def tag_ids_def Let_def

lemma str_nat_1: "str_nat 1 = ''1''" "str_nat (Suc 0) = ''1''"
  by code_simp+

lemma str_nat_2: "str_nat 2 = ''2''" "str_nat (Suc (Suc 0)) = ''2''"
  by code_simp+

text \<open>A payload that holds a line feed is taken up to the line feed: the dot of the
  pattern of line 211 matches no line feed.\<close>

lemma wrapped_payload_cut:
  "extract_inline_images (img_env (''data:image/png;base64,QUJD'' @ [CHR 0x0A] @ ''RUZH''))
         (img_html (''data:image/png;base64,QUJD'' @ [CHR 0x0A] @ ''RUZH''))
       = Inr (''<img src='' @ [dquote] @ ''cid:image_1@example.com'' @ [dquote] @ ''/>'',
              [\<lparr> odata_type = ''#microsoft.graph.fileAttachment'', name = ''image_1'',
                  contentType = ''image/png'', contentBytes = ''QUJD'', isInline = True,
                  contentId = ''image_1@example.com'' \<rparr>])"
  by (simp add: img_defs str_nat_1)

section \<open>The claims\<close>



lemma ensure_fail:
  "ensure_token e s w = (False, s1, w1) \<Longrightarrow>
     send_email e s w to_address subject html_body attachments cc_addresses = (Inr False, s1, w1)"
  by (simp add: send_email_def)

text \<open>
  C5. A call of \<^verbatim>\<open>send_email\<close> never raises: its result is a boolean, which is True
  exactly when a request was issued and the last request issued (the first one, or the
  one reissued after a token refresh) was answered with HTTP 202. At most two requests
  are issued, and when the authentication before the request fails the result is False
  and no request is issued.
\<close>

theorem send_email_never_raises:
  assumes "send_email e s w to_address subject html_body attachments cc_addresses = (r, s', w')"
  shows "r = Inr (last_request_accepted e w w') \<and> post_calls w' \<le> post_calls w + 2 \<and>
         (fst (ensure_token e s w) \<or> (r = Inr False \<and> post_calls w' = post_calls w))"
proof -
  obtain ok s1 w1 where en: "ensure_token e s w = (ok, s1, w1)" by (metis prod_cases3)
  note p1 = ensure_posts[OF en]
  show ?thesis
  proof (cases ok)
    case False
    with en ensure_fail[of e s w s1 w1] assms p1 show ?thesis
      by (auto simp: last_request_accepted_def)
  next
    case True
    obtain r2 s2 w2 where tr: "send_email_try e s1 w1
        (build_request s1 to_address subject html_body attachments cc_addresses) = (r2, s2, w2)"
      by (metis prod_cases3)
    from assms en True tr have w': "w' = w2" and r: "r = (case r2 of Inl ex \<Rightarrow> Inr False | Inr b \<Rightarrow> Inr b)"
      by (auto simp: send_email_def split: sum.splits)
    from try_result[OF tr] p1 have
      "post_calls w < post_calls w2" "post_calls w2 \<le> post_calls w + 2"
      "(case r2 of Inr b \<Rightarrow> b = last_request_accepted e w w2 | Inl ex \<Rightarrow> \<not> last_request_accepted e w w2)"
      by (auto simp: last_request_accepted_def split: sum.splits)
    with w' r en True show ?thesis by (auto split: sum.splits)
  qed
qed

text \<open>An accepted request gives True; a transport error and a failed authentication
  give False.\<close>

theorem send_email_never_raises_witness:
  "send_email (plain_env (\<lambda>n. Inr (Some ''tok'')) (\<lambda>n. Inr (status_response 202))) sender0 world0
      ''a@example.com'' ''Subject'' ''Hi'' None None
    = (Inr True, sender0\<lparr>access_token := Some ''tok'', token_expires_at := Some 3300000000\<rparr>,
       world0\<lparr>auth_calls := 1, now_calls := 1, post_calls := 1,
         trace := [Authenticate,
                   Post (build_request (sender0\<lparr>access_token := Some ''tok''\<rparr>)
                           ''a@example.com'' ''Subject'' ''Hi'' None None)]\<rparr>)
   \<and> last_request_accepted (plain_env (\<lambda>n. Inr (Some ''tok'')) (\<lambda>n. Inr (status_response 202))) world0
       (world0\<lparr>auth_calls := 1, now_calls := 1, post_calls := 1,
         trace := [Authenticate,
                   Post (build_request (sender0\<lparr>access_token := Some ''tok''\<rparr>)
                           ''a@example.com'' ''Subject'' ''Hi'' None None)]\<rparr>)
   \<and> fst (send_email (plain_env (\<lambda>n. Inr (Some ''tok'')) (\<lambda>n. Inl OtherException)) sender0 world0
      ''a@example.com'' ''Subject'' ''Hi'' None None) = Inr False
   \<and> fst (send_email (plain_env (\<lambda>n. Inr None) (\<lambda>n. Inr (status_response 202))) sender0 world0
      ''a@example.com'' ''Subject'' ''Hi'' None None) = Inr False"
  using send_email_never_raises[of "plain_env (\<lambda>n. Inr (Some ''tok'')) (\<lambda>n. Inr (status_response 202))"
      sender0 world0 "''a@example.com''" "''Subject''" "''Hi''" None None "Inr True"
      "sender0\<lparr>access_token := Some ''tok'', token_expires_at := Some 3300000000\<rparr>"
      "world0\<lparr>auth_calls := 1, now_calls := 1, post_calls := 1,
         trace := [Authenticate,
                   Post (build_request (sender0\<lparr>access_token := Some ''tok''\<rparr>)
                           ''a@example.com'' ''Subject'' ''Hi'' None None)]\<rparr>"]
  by (simp add: run_defs last_request_accepted_def)

text \<open>
  C4. Once a token is held, one call of \<^verbatim>\<open>send_email\<close> puts on the network exactly
  the exchange of \<open>exchange\<close>: one request; where its answer is a 401 with the error code
  InvalidAuthenticationToken, and for no other answer, one re-authentication, followed,
  if that succeeds, by the same request once more under the new token, and by nothing if
  that fails, in which case the result is False. All of it happens inside the one call:
  when the call returns True, the retry loop of the batch, started with any budget
  \<open>max_retries \<ge> 0\<close>, ends at its first attempt, with no backoff wait.
\<close>

theorem token_invalid_retry:
  assumes en: "ensure_token e s w = (True, s1, w1)"
      and se: "send_email e s w rcpt (mail_subject m) (processed_html m)
                 (Some (mail_attachments m)) (mail_cc m) = (r, s', w')"
      and mr: "0 \<le> max_retries"
  shows "trace w' = trace w1 @ exchange e w1 (build_request s1 rcpt (mail_subject m)
                       (processed_html m) (Some (mail_attachments m)) (mail_cc m))
         \<and> r = Inr (exchange_result e w1)
         \<and> (exchange_result e w1 \<longrightarrow>
              retry_loop e m rcpt max_retries 0 s w
                = (Inr True, s', w'\<lparr>trace := trace w' @ [SendEmail rcpt True]\<rparr>))"
proof -
  let ?req = "build_request s1 rcpt (mail_subject m) (processed_html m)
                (Some (mail_attachments m)) (mail_cc m)"
  obtain r2 s2 w2 where tr: "send_email_try e s1 w1 ?req = (r2, s2, w2)"
    by (metis prod_cases3)
  from se en tr have w': "w' = w2" and r: "r = (case r2 of Inl ex \<Rightarrow> Inr False | Inr b \<Rightarrow> Inr b)"
    by (auto simp: send_email_def split: sum.splits)
  from try_exchange[OF tr] w' r have
    t: "trace w' = trace w1 @ exchange e w1 ?req" and res: "r = Inr (exchange_result e w1)"
    by (auto split: sum.splits)
  have "retry_loop e m rcpt max_retries 0 s w
          = (Inr True, s', w'\<lparr>trace := trace w' @ [SendEmail rcpt True]\<rparr>)"
    if "exchange_result e w1"
    using that se res mr by (simp add: retry_loop.simps[of e m rcpt max_retries 0 s w])
  with t res show ?thesis by blast
qed

text \<open>The first answer is the invalid-token 401, the second is 202: one attempt, two
  requests, the second under the new token, and success with a budget of no retries.\<close>

theorem token_invalid_retry_witness:
  "ensure_token (plain_env (\<lambda>n. Inr (Some (if n = 0 then ''old'' else ''new'')))
                   (\<lambda>n. Inr (if n = 0 then invalid_token_response else status_response 202)))
      sender0 world0
     = (True, sender0\<lparr>access_token := Some ''old'', token_expires_at := Some 3300000000\<rparr>,
        world0\<lparr>auth_calls := 1, now_calls := 1, trace := [Authenticate]\<rparr>)
   \<and> invalid_token_401 invalid_token_response
   \<and> retry_loop (plain_env (\<lambda>n. Inr (Some (if n = 0 then ''old'' else ''new'')))
                   (\<lambda>n. Inr (if n = 0 then invalid_token_response else status_response 202)))
        \<lparr>mail_subject = ''Subject'', processed_html = ''Hi'', mail_attachments = [], mail_cc = None\<rparr>
        ''a@example.com'' 0 0 sender0 world0
     = (Inr True, sender0\<lparr>access_token := Some ''new'', token_expires_at := Some 3300000001\<rparr>,
        world0\<lparr>auth_calls := 2, now_calls := 2, post_calls := 2,
          trace := [Authenticate,
                    Post (build_request (sender0\<lparr>access_token := Some ''old''\<rparr>)
                            ''a@example.com'' ''Subject'' ''Hi'' (Some []) None),
                    Authenticate,
                    Post (build_request (sender0\<lparr>access_token := Some ''new''\<rparr>)
                            ''a@example.com'' ''Subject'' ''Hi'' (Some []) None),
                    SendEmail ''a@example.com'' True]\<rparr>)"
  using token_invalid_retry[of
      "plain_env (\<lambda>n. Inr (Some (if n = 0 then ''old'' else ''new'')))
                   (\<lambda>n. Inr (if n = 0 then invalid_token_response else status_response 202))"
      sender0 world0
      "sender0\<lparr>access_token := Some ''old'', token_expires_at := Some 3300000000\<rparr>"
      "world0\<lparr>auth_calls := 1, now_calls := 1, trace := [Authenticate]\<rparr>"
      "''a@example.com''"
      "\<lparr>mail_subject = ''Subject'', processed_html = ''Hi'', mail_attachments = [], mail_cc = None\<rparr>"
      "Inr True"
      "sender0\<lparr>access_token := Some ''new'', token_expires_at := Some 3300000001\<rparr>"
      "world0\<lparr>auth_calls := 2, now_calls := 2, post_calls := 2,
          trace := [Authenticate,
                    Post (build_request (sender0\<lparr>access_token := Some ''old''\<rparr>)
                            ''a@example.com'' ''Subject'' ''Hi'' (Some []) None),
                    Authenticate,
                    Post (build_request (sender0\<lparr>access_token := Some ''new''\<rparr>)
                            ''a@example.com'' ''Subject'' ''Hi'' (Some []) None)]\<rparr>"
      0]
  by (simp add: run_defs invalid_token_401_def exchange_def exchange_result_def)

text \<open>
  C2. For every recipient the batch processes with \<open>max_retries \<ge> 0\<close>: the attempts are
  \<open>k\<close> calls of \<^verbatim>\<open>send_email\<close> with \<open>1 \<le> k \<le> max_retries + 1\<close>; the first \<open>k - 1\<close> return
  False and each is followed by one backoff wait, the \<open>j\<close>-th wait (from 0) lasting
  \<open>min (60 * 2 ^ j) 300\<close> seconds; no wait comes before the first attempt or after the
  last; the \<open>k\<close>-th call decides the outcome, and an outcome of failure has used all
  \<open>max_retries + 1\<close> attempts, so \<open>max_retries\<close> waits, and is recorded as failed.
\<close>

theorem backoff_schedule:
  assumes "0 \<le> max_retries"
      and "process_recipient e m max_retries n i rcpt s w res = (out, s', w')"
  shows "\<exists>k ok ts evs.
           trace w' = trace w @ evs \<and>
           1 \<le> k \<and> int k \<le> max_retries + 1 \<and> (ok \<or> int k = max_retries + 1) \<and>
           schedule evs = Processing (i + 1) n rcpt # attempts rcpt k ok \<and>
           backoff_waits evs = map (\<lambda>j. min (60 * 2 ^ j) 300) [0..<k - 1] \<and>
           out = Inr (record_result res ts rcpt ok) \<and>
           details (record_result res ts rcpt ok)
             = details res @ [\<lparr>timestamp = ts, recipient = rcpt,
                                status = (if ok then ''success'' else ''failed'')\<rparr>] \<and>
           sent (record_result res ts rcpt ok) = sent res + (if ok then 1 else 0) \<and>
           failed (record_result res ts rcpt ok) = failed res + (if ok then 0 else 1)"
proof -
  from process_recipient_schedule[OF assms(2)] obtain k ok ts evs where
    h: "out = Inr (record_result res ts rcpt ok)" "trace w' = trace w @ evs"
       "schedule evs = Processing (i + 1) n rcpt # attempts rcpt k ok"
       "int k \<le> max 0 (max_retries + 1)" "0 \<le> max_retries \<longrightarrow> 1 \<le> k"
       "ok \<or> int k = max 0 (max_retries + 1)"
    by blast
  have "backoff_waits evs = backoff_waits (schedule evs)" by (simp add: backoff_waits_schedule)
  also have "\<dots> = map (\<lambda>j. min (60 * 2 ^ j) 300) [0..<k - 1]"
    by (simp add: h(3) backoff_waits_attempts)
  finally have b: "backoff_waits evs = map (\<lambda>j. min (60 * 2 ^ j) 300) [0..<k - 1]" .
  show ?thesis
    apply (rule_tac x=k in exI, rule_tac x=ok in exI, rule_tac x=ts in exI, rule_tac x=evs in exI)
    using h b assms(1) by (auto simp: record_result_fields)
qed

text \<open>Five failing attempts with a budget of four retries: the waits are 60, 120, 240
  and 300 seconds, and the recipient is recorded as failed.\<close>

theorem backoff_schedule_witness:
  "(0::int) \<le> 4
   \<and> schedule (trace (snd (snd (process_recipient
        (plain_env (\<lambda>n. Inr (Some ''tok'')) (\<lambda>n. Inr (status_response 500)))
        \<lparr>mail_subject = ''Subject'', processed_html = ''Hi'', mail_attachments = [], mail_cc = None\<rparr>
        4 1 0 ''a@example.com'' sender0 world0
        \<lparr>total = 1, sent = 0, failed = 0, skipped = 0, details = []\<rparr>))))
      = [Processing 1 1 ''a@example.com'',
         SendEmail ''a@example.com'' False, Sleep Backoff 60,
         SendEmail ''a@example.com'' False, Sleep Backoff 120,
         SendEmail ''a@example.com'' False, Sleep Backoff 240,
         SendEmail ''a@example.com'' False, Sleep Backoff 300,
         SendEmail ''a@example.com'' False]
   \<and> fst (process_recipient
        (plain_env (\<lambda>n. Inr (Some ''tok'')) (\<lambda>n. Inr (status_response 500)))
        \<lparr>mail_subject = ''Subject'', processed_html = ''Hi'', mail_attachments = [], mail_cc = None\<rparr>
        4 1 0 ''a@example.com'' sender0 world0
        \<lparr>total = 1, sent = 0, failed = 0, skipped = 0, details = []\<rparr>)
      = Inr \<lparr>total = 1, sent = 0, failed = 1, skipped = 0,
             details = [\<lparr>timestamp = 5, recipient = ''a@example.com'', status = ''failed''\<rparr>]\<rparr>
   \<and> (\<exists>k ok ts evs.
         trace (snd (snd (process_recipient
           (plain_env (\<lambda>n. Inr (Some ''tok'')) (\<lambda>n. Inr (status_response 500)))
           \<lparr>mail_subject = ''Subject'', processed_html = ''Hi'', mail_attachments = [], mail_cc = None\<rparr>
           4 1 0 ''a@example.com'' sender0 world0
           \<lparr>total = 1, sent = 0, failed = 0, skipped = 0, details = []\<rparr>))) = trace world0 @ evs \<and>
         1 \<le> k \<and> int k \<le> 4 + 1 \<and> (ok \<or> int k = 4 + 1) \<and>
         schedule evs = Processing 1 1 ''a@example.com'' # attempts ''a@example.com'' k ok \<and>
         backoff_waits evs = map (\<lambda>j. min (60 * 2 ^ j) 300) [0..<k - 1])"
proof -
  let ?run = "process_recipient
        (plain_env (\<lambda>n. Inr (Some ''tok'')) (\<lambda>n. Inr (status_response 500)))
        \<lparr>mail_subject = ''Subject'', processed_html = ''Hi'', mail_attachments = [], mail_cc = None\<rparr>
        4 1 0 ''a@example.com'' sender0 world0
        \<lparr>total = 1, sent = 0, failed = 0, skipped = 0, details = []\<rparr>"
  have h: "(0::int) \<le> 4" by simp
  have run: "?run = (fst ?run, fst (snd ?run), snd (snd ?run))" by simp
  from backoff_schedule[OF h run] have ex: "\<exists>k ok ts evs.
         trace (snd (snd ?run)) = trace world0 @ evs \<and>
         1 \<le> k \<and> int k \<le> 4 + 1 \<and> (ok \<or> int k = 4 + 1) \<and>
         schedule evs = Processing 1 1 ''a@example.com'' # attempts ''a@example.com'' k ok \<and>
         backoff_waits evs = map (\<lambda>j. min (60 * 2 ^ j) 300) [0..<k - 1]"
    by (simp only: One_nat_def add_0 Suc_eq_plus1[symmetric]) blast
  have ev: "?run = (Inr \<lparr>total = 1, sent = 0, failed = 1, skipped = 0,
             details = [\<lparr>timestamp = 5, recipient = ''a@example.com'', status = ''failed''\<rparr>]\<rparr>,
        sender0\<lparr>access_token := Some ''tok'', token_expires_at := Some 3300000000\<rparr>,
        world0\<lparr>auth_calls := 1, now_calls := 6, post_calls := 5, sleep_calls := 4,
          trace := [Processing 1 1 ''a@example.com'', Authenticate,
            Post (build_request (sender0\<lparr>access_token := Some ''tok''\<rparr>) ''a@example.com'' ''Subject'' ''Hi'' (Some []) None),
            SendEmail ''a@example.com'' False, Sleep Backoff 60,
            Post (build_request (sender0\<lparr>access_token := Some ''tok''\<rparr>) ''a@example.com'' ''Subject'' ''Hi'' (Some []) None),
            SendEmail ''a@example.com'' False, Sleep Backoff 120,
            Post (build_request (sender0\<lparr>access_token := Some ''tok''\<rparr>) ''a@example.com'' ''Subject'' ''Hi'' (Some []) None),
            SendEmail ''a@example.com'' False, Sleep Backoff 240,
            Post (build_request (sender0\<lparr>access_token := Some ''tok''\<rparr>) ''a@example.com'' ''Subject'' ''Hi'' (Some []) None),
            SendEmail ''a@example.com'' False, Sleep Backoff 300,
            Post (build_request (sender0\<lparr>access_token := Some ''tok''\<rparr>) ''a@example.com'' ''Subject'' ''Hi'' (Some []) None),
            SendEmail ''a@example.com'' False]\<rparr>)"
    by (simp add: run_defs retry_loop.simps)
  show ?thesis
    using ex unfolding ev by (simp add: schedule_def is_net_def)
qed









text \<open>
  C8, as amended. Let the image elements with a source be \<open>before @ img_tag # after\<close> in
  document order, let the source of \<open>img_tag\<close> be \<^verbatim>\<open>data:image/<subtype>;base64,<payload>\<close>
  with a subtype that is not empty and holds no semicolon and a payload that holds no
  line feed, and let \<open>n - 1\<close> attachments have been made from the elements before it.
  Then \<^verbatim>\<open>extract_inline_images\<close> returns, the source of \<open>img_tag\<close> in the tree it
  serialises is exactly \<^verbatim>\<open>cid:image_<n>@example.com\<close>, and the \<open>n\<close>-th attachment it
  returns has the content identifier \<^verbatim>\<open>image_<n>@example.com\<close>, the MIME type and the
  payload of the URI, and the inline flag; \<^verbatim>\<open><n>\<close> is the decimal numeral of \<open>n\<close>.
\<close>

theorem extract_data_uri:
  assumes parse: "html_parser e html_content = Inr soup"
      and ids: "distinct (tag_ids soup)"
      and imgs: "find_all img_with_src soup = before @ img_tag # after"
      and src: "tag_getitem soup img_tag ''src''
                  = Inr (''data:image/'' @ subtype @ '';base64,'' @ payload)"
      and sub: "subtype \<noteq> []" "CHR '';'' \<notin> set subtype"
      and pay: "CHR 0x0A \<notin> set payload"
  shows "\<exists>soup1 atts1 soup' atts'.
           img_loop e before (soup, []) = Inr (soup1, atts1) \<and>
           extract_inline_images e html_content = Inr (soup_str soup', atts') \<and>
           img_loop e (find_all img_with_src soup) (soup, []) = Inr (soup', atts') \<and>
           tag_getitem soup' img_tag ''src''
             = Inr (''cid:image_'' @ str_nat (length atts1 + 1) @ ''@example.com'') \<and>
           length atts1 < length atts' \<and>
           atts' ! length atts1
             = data_uri_attachment (length atts1 + 1) (''image/'' @ subtype) payload \<and>
           decimal (str_nat (length atts1 + 1)) \<and>
           nat_of_decimal (str_nat (length atts1 + 1)) = length atts1 + 1"
proof -
  let ?v = "''data:image/'' @ subtype @ '';base64,'' @ payload"
  note sp = img_loop_split[OF ids imgs]
  from sp(1)[of e] obtain soup1 atts1 where
    l1: "img_loop e before (soup, []) = Inr (soup1, atts1)"
        "tag_getitem soup1 img_tag ''src'' = tag_getitem soup img_tag ''src''"
        "\<forall>j. has_src soup j \<longrightarrow> has_src soup1 j"
    by blast
  note d = sp(2,3) and h = sp(4)
  let ?att = "data_uri_attachment (length atts1 + 1) (''image/'' @ subtype) payload"
  let ?cid = "''cid:image_'' @ str_nat (length atts1 + 1) @ ''@example.com''"
  let ?soup2 = "tag_setitem img_tag ''src'' ?cid soup1"
  have m: "match_data_uri ?v = Some (''image/'' @ subtype, payload)"
    using match_data_uri_pattern[OF sub, of payload] pay by (simp add: takeWhile_all)
  have g1: "tag_getitem soup1 img_tag ''src'' = Inr ?v" using l1(2) src by simp
  have st: "startswith ?v ''data:''" by (simp add: startswith_def)
  have step: "process_img e img_tag (soup1, atts1) = Inr (?soup2, atts1 @ [?att])"
    unfolding process_img_def prod.case g1 sum.case
    using st m by (simp add: new_cid_def data_uri_attachment_def)
  have a1: "tag_attrs img_tag soup1 \<noteq> None"
    using g1 by (auto simp: tag_getitem_def split: option.splits)
  have g2: "tag_getitem ?soup2 img_tag ''src'' = Inr ?cid"
    using a1 by (auto simp: getitem_setitem)
  have "\<And>j. j \<in> set after \<Longrightarrow> has_src ?soup2 j"
    using h l1(3) by (simp add: has_src_setitem)
  from img_loop_frame[OF this, of after e "atts1 @ [?att]"] d(2) obtain soup' extra where
    l3: "img_loop e after (?soup2, atts1 @ [?att]) = Inr (soup', (atts1 @ [?att]) @ extra)"
        "tag_getitem soup' img_tag ''src'' = tag_getitem ?soup2 img_tag ''src''"
    by auto
  have whole: "img_loop e (find_all img_with_src soup) (soup, []) = Inr (soup', (atts1 @ [?att]) @ extra)"
    unfolding imgs img_loop_append l1(1) using step l3(1) by simp
  show ?thesis
    apply (rule_tac x=soup1 in exI, rule_tac x=atts1 in exI, rule_tac x=soup' in exI,
           rule_tac x="(atts1 @ [?att]) @ extra" in exI)
    using l1(1) whole l3(2) g2 parse str_nat_decimal[of "length atts1 + 1"]
    by (simp add: extract_inline_images_def nth_append)
qed

text \<open>Three image elements, the first on the web: the third is the second to give an
  attachment, and becomes \<^verbatim>\<open>cid:image_2@example.com\<close>. And Scenario B: one image element
  with the source \<^verbatim>\<open>data:image/png;base64,QUJD\<close>.\<close>

theorem extract_data_uri_witness:
  "html_parser three_imgs_env three_imgs_html = Inr three_imgs_tree
   \<and> distinct (tag_ids three_imgs_tree)
   \<and> find_all img_with_src three_imgs_tree = [0, 1] @ 2 # []
   \<and> tag_getitem three_imgs_tree 2 ''src'' = Inr ''data:image/png;base64,QUJD''
   \<and> extract_inline_images three_imgs_env three_imgs_html
       = Inr (''<img src='' @ [dquote] @ ''http://example.com/a.png'' @ [dquote] @ ''/>''
                @ ''<img src='' @ [dquote] @ ''cid:image_1@example.com'' @ [dquote] @ ''/>''
                @ ''<img src='' @ [dquote] @ ''cid:image_2@example.com'' @ [dquote] @ ''/>'',
              [\<lparr> odata_type = ''#microsoft.graph.fileAttachment'', name = ''image_1'',
                  contentType = ''image/gif'', contentBytes = ''R0lG'', isInline = True,
                  contentId = ''image_1@example.com'' \<rparr>,
               \<lparr> odata_type = ''#microsoft.graph.fileAttachment'', name = ''image_2'',
                  contentType = ''image/png'', contentBytes = ''QUJD'', isInline = True,
                  contentId = ''image_2@example.com'' \<rparr>])
   \<and> extract_inline_images (img_env ''data:image/png;base64,QUJD'')
         (img_html ''data:image/png;base64,QUJD'')
       = Inr (''<img src='' @ [dquote] @ ''cid:image_1@example.com'' @ [dquote] @ ''/>'',
              [\<lparr> odata_type = ''#microsoft.graph.fileAttachment'', name = ''image_1'',
                  contentType = ''image/png'', contentBytes = ''QUJD'', isInline = True,
                  contentId = ''image_1@example.com'' \<rparr>])
   \<and> str_nat 12 = ''12'' \<and> nat_of_decimal ''12'' = 12"
proof -
  let ?src = "''data:image/png;base64,QUJD''"
  let ?soup = "[Tag 0 ''img'' [(''src'', ?src)] []]"
  have p: "html_parser (img_env ?src) (img_html ?src) = Inr ?soup"
    by (simp add: img_defs)
  have d: "distinct (tag_ids ?soup)" by (simp add: img_defs)
  have f: "find_all img_with_src ?soup = [] @ 0 # []" by (simp add: img_defs)
  have s: "tag_getitem ?soup 0 ''src'' = Inr (''data:image/'' @ ''png'' @ '';base64,'' @ ''QUJD'')"
    by (simp add: img_defs)
  have c: "''png'' \<noteq> []" "CHR '';'' \<notin> set ''png''" "CHR 0x0A \<notin> set ''QUJD''" by simp_all
  have p3: "html_parser three_imgs_env three_imgs_html = Inr three_imgs_tree"
    by (simp add: three_imgs_env_def file_env_def)
  have d3: "distinct (tag_ids three_imgs_tree)" by (simp add: three_imgs_tree_def tag_ids_def)
  have f3: "find_all img_with_src three_imgs_tree = [0, 1] @ 2 # []"
    by (simp add: three_imgs_tree_def img_with_src_def)
  have s3: "tag_getitem three_imgs_tree 2 ''src'' = Inr (''data:image/'' @ ''png'' @ '';base64,'' @ ''QUJD'')"
    by (simp add: three_imgs_tree_def tag_getitem_def)
  from extract_data_uri[OF p d f s c] have
    "\<exists>soup' atts'. extract_inline_images (img_env ?src) (img_html ?src) = Inr (soup_str soup', atts')"
    by blast
  moreover from extract_data_uri[OF p3 d3 f3 s3 c] have
    "\<exists>soup' atts'. extract_inline_images three_imgs_env three_imgs_html = Inr (soup_str soup', atts')"
    by blast
  moreover have "extract_inline_images (img_env ?src) (img_html ?src)
       = Inr (''<img src='' @ [dquote] @ ''cid:image_1@example.com'' @ [dquote] @ ''/>'',
              [\<lparr> odata_type = ''#microsoft.graph.fileAttachment'', name = ''image_1'',
                  contentType = ''image/png'', contentBytes = ''QUJD'', isInline = True,
                  contentId = ''image_1@example.com'' \<rparr>])"
    by (simp add: img_defs str_nat_1)
  moreover have "extract_inline_images three_imgs_env three_imgs_html
       = Inr (''<img src='' @ [dquote] @ ''http://example.com/a.png'' @ [dquote] @ ''/>''
                @ ''<img src='' @ [dquote] @ ''cid:image_1@example.com'' @ [dquote] @ ''/>''
                @ ''<img src='' @ [dquote] @ ''cid:image_2@example.com'' @ [dquote] @ ''/>'',
              [\<lparr> odata_type = ''#microsoft.graph.fileAttachment'', name = ''image_1'',
                  contentType = ''image/gif'', contentBytes = ''R0lG'', isInline = True,
                  contentId = ''image_1@example.com'' \<rparr>,
               \<lparr> odata_type = ''#microsoft.graph.fileAttachment'', name = ''image_2'',
                  contentType = ''image/png'', contentBytes = ''QUJD'', isInline = True,
                  contentId = ''image_2@example.com'' \<rparr>])"
    unfolding extract_inline_images_def p3 sum.case f3
    by (simp add: three_imgs_tree_def img_defs str_nat_1 str_nat_2)
  moreover have "str_nat 12 = ''12''" "nat_of_decimal ''12'' = 12"
    by code_simp+
  ultimately show ?thesis using p3 d3 f3 s3 by simp
qed

text \<open>C8 as stated fails: \<^verbatim>\<open>data:image/svg+xml;charset=utf-8;base64,QUJD\<close> is a base64
  data URI of an image type, with a parameter after the type. The pattern of line 211
  wants \<^verbatim>\<open>;base64,\<close> right after the type, so the element keeps its source and no
  attachment is made.\<close>

theorem parameterised_data_uri_untouched:
  "html_parser (img_env ''data:image/svg+xml;charset=utf-8;base64,QUJD'')
       (img_html ''data:image/svg+xml;charset=utf-8;base64,QUJD'')
     = Inr [Tag 0 ''img'' [(''src'', ''data:image/svg+xml;charset=utf-8;base64,QUJD'')] []]
   \<and> extract_inline_images (img_env ''data:image/svg+xml;charset=utf-8;base64,QUJD'')
         (img_html ''data:image/svg+xml;charset=utf-8;base64,QUJD'')
       = Inr (''<img src='' @ [dquote] @ ''data:image/svg+xml;charset=utf-8;base64,QUJD''
                @ [dquote] @ ''/>'', [])"
  by (simp add: img_defs)

text \<open>
  C10. An image element whose source starts with \<^verbatim>\<open>data:\<close> and is not of the form
  \<^verbatim>\<open>data:image/<subtype>;base64,<payload>\<close> is a step of the loop that changes nothing: the
  tree and the attachments after it are those before it, the whole run gives what the run
  without this element gives (so the numbering of the later attachments does not move),
  and the element's source in the result is the one it had.
\<close>

theorem unmatched_data_uri_untouched:
  assumes parse: "html_parser e html_content = Inr soup"
      and ids: "distinct (tag_ids soup)"
      and imgs: "find_all img_with_src soup = before @ img_tag # after"
      and src: "tag_getitem soup img_tag ''src'' = Inr v"
      and dat: "startswith v ''data:''"
      and nom: "\<forall>subtype payload. v = ''data:image/'' @ subtype @ '';base64,'' @ payload \<longrightarrow>
                   subtype = [] \<or> CHR '';'' \<in> set subtype"
  shows "\<exists>soup1 atts1 soup' atts'.
           img_loop e before (soup, []) = Inr (soup1, atts1) \<and>
           process_img e img_tag (soup1, atts1) = Inr (soup1, atts1) \<and>
           img_loop e (before @ img_tag # after) (soup, []) = Inr (soup', atts') \<and>
           img_loop e (before @ after) (soup, []) = Inr (soup', atts') \<and>
           extract_inline_images e html_content = Inr (soup_str soup', atts') \<and>
           tag_getitem soup' img_tag ''src'' = Inr v"
proof -
  note sp = img_loop_split[OF ids imgs]
  from sp(1)[of e] obtain soup1 atts1 where
    l1: "img_loop e before (soup, []) = Inr (soup1, atts1)"
        "tag_getitem soup1 img_tag ''src'' = tag_getitem soup img_tag ''src''"
        "\<forall>j. has_src soup j \<longrightarrow> has_src soup1 j"
    by blast
  note d = sp(2,3) and h = sp(4)
  have m: "match_data_uri v = None"
  proof (cases "match_data_uri v")
    case None
    then show ?thesis .
  next
    case (Some p)
    obtain mime data where "p = (mime, data)" by (cases p)
    with Some match_data_uri_Some[of v mime data] nom show ?thesis by blast
  qed
  have g1: "tag_getitem soup1 img_tag ''src'' = Inr v" using l1(2) src by simp
  have step: "process_img e img_tag (soup1, atts1) = Inr (soup1, atts1)"
    unfolding process_img_def prod.case g1 sum.case using dat m by simp
  have "\<And>j. j \<in> set after \<Longrightarrow> has_src soup1 j" using h l1(3) by simp
  from img_loop_frame[OF this, of after e atts1] d(2) obtain soup' extra where
    l3: "img_loop e after (soup1, atts1) = Inr (soup', atts1 @ extra)"
        "tag_getitem soup' img_tag ''src'' = tag_getitem soup1 img_tag ''src''"
    by auto
  have whole: "img_loop e (before @ img_tag # after) (soup, []) = Inr (soup', atts1 @ extra)"
    unfolding img_loop_append l1(1) using step l3(1) by simp
  have skip: "img_loop e (before @ after) (soup, []) = Inr (soup', atts1 @ extra)"
    unfolding img_loop_append l1(1) using l3(1) by simp
  show ?thesis
    apply (rule_tac x=soup1 in exI, rule_tac x=atts1 in exI, rule_tac x=soup' in exI,
           rule_tac x="atts1 @ extra" in exI)
    using l1(1) step whole skip l3(2) g1 parse imgs by (simp add: extract_inline_images_def)
qed

text \<open>A data URI of a MIME type that is no image, and one that is not base64: both are
  left as they are, with no attachment.\<close>

theorem unmatched_data_uri_witness:
  "html_parser (img_env ''data:text/plain;base64,QUJD'') (img_html ''data:text/plain;base64,QUJD'')
     = Inr [Tag 0 ''img'' [(''src'', ''data:text/plain;base64,QUJD'')] []]
   \<and> startswith ''data:text/plain;base64,QUJD'' ''data:''
   \<and> extract_inline_images (img_env ''data:text/plain;base64,QUJD'')
         (img_html ''data:text/plain;base64,QUJD'')
       = Inr (''<img src='' @ [dquote] @ ''data:text/plain;base64,QUJD'' @ [dquote] @ ''/>'', [])
   \<and> extract_inline_images (img_env ''data:image/png,QUJD'') (img_html ''data:image/png,QUJD'')
       = Inr (''<img src='' @ [dquote] @ ''data:image/png,QUJD'' @ [dquote] @ ''/>'', [])"
proof -
  let ?src = "''data:text/plain;base64,QUJD''"
  let ?soup = "[Tag 0 ''img'' [(''src'', ?src)] []]"
  have p: "html_parser (img_env ?src) (img_html ?src) = Inr ?soup"
    by (simp add: img_defs)
  have d: "distinct (tag_ids ?soup)" by (simp add: img_defs)
  have f: "find_all img_with_src ?soup = [] @ 0 # []" by (simp add: img_defs)
  have s: "tag_getitem ?soup 0 ''src'' = Inr ?src" by (simp add: img_defs)
  have st: "startswith ?src ''data:''" by (simp add: startswith_def)
  have n: "\<forall>subtype payload. ?src = ''data:image/'' @ subtype @ '';base64,'' @ payload \<longrightarrow>
              subtype = [] \<or> CHR '';'' \<in> set subtype"
    by simp
  from unmatched_data_uri_untouched[OF p d f s st n] have
    "\<exists>soup' atts'. extract_inline_images (img_env ?src) (img_html ?src) = Inr (soup_str soup', atts')"
    by blast
  moreover have "extract_inline_images (img_env ?src) (img_html ?src)
       = Inr (''<img src='' @ [dquote] @ ?src @ [dquote] @ ''/>'', [])"
    by (simp add: img_defs)
  moreover have "extract_inline_images (img_env ''data:image/png,QUJD'') (img_html ''data:image/png,QUJD'')
       = Inr (''<img src='' @ [dquote] @ ''data:image/png,QUJD'' @ [dquote] @ ''/>'', [])"
    by (simp add: img_defs)
  ultimately show ?thesis using p st by simp
qed

text \<open>
  C9 does not hold of the code. A recipients file whose content is valid JSON but no
  array, here the object \<^verbatim>\<open>{"to": "a@example.com"}\<close>, raises no JSONDecodeError, so the
  fallback to lines is not taken, and the function reaches its end and returns
  \<^verbatim>\<open>None\<close>, no list.
\<close>

theorem load_recipients_returns_none:
  "read_text object_env ''recipients.json''
     = Inr (''{'' @ [dquote] @ ''to'' @ [dquote] @ '': '' @ [dquote] @ ''a@example.com'' @ [dquote] @ ''}'')
   \<and> json_loads object_env
       (''{'' @ [dquote] @ ''to'' @ [dquote] @ '': '' @ [dquote] @ ''a@example.com'' @ [dquote] @ ''}'')
     = Inr (JObj [(''to'', JStr ''a@example.com'')])
   \<and> load_recipients object_env (\<lambda>v. []) ''recipients.json'' = ReturnsNone"
  by (simp add: object_env_def file_env_def load_recipients_def strip_def white_space_def
        leading_def lstrip_tokens.simps dquote_def)

end
